theory Spec2Isabelle
  imports Main "HOL-Library.Multiset" "HOL-Library.Sublist"
begin

section \<open>PhotOrganiser: strings and characters\<close>

text \<open>
  The program is the Python script \<^verbatim>\<open>photOrganiser.py\<close>. Python strings are sequences of
  Unicode code points; here a string is a \<^typ>\<open>string\<close>, a list of 8-bit characters read
  as the code points 0 to 255. In that range \<^verbatim>\<open>str.upper\<close> maps exactly the letters a to z
  to the letters A to Z (every other character goes to a character outside A to Z, or stays),
  the decimal digits of \<^verbatim>\<open>\d\<close> are 0 to 9, and the regular expression flag
  \<^verbatim>\<open>IGNORECASE\<close> identifies a letter of \<^verbatim>\<open>date\<close> with its capital only.
  File names and tags with code points above 255 are outside the model.
\<close>

definition upper_char :: "char \<Rightarrow> char" where
  "upper_char c =
     (case map_of (zip ''abcdefghijklmnopqrstuvwxyz'' ''ABCDEFGHIJKLMNOPQRSTUVWXYZ'') c of
        Some u \<Rightarrow> u
      | None \<Rightarrow> c)"

definition upper :: "string \<Rightarrow> string" where
  "upper s = map upper_char s"

definition is_digit :: "char \<Rightarrow> bool" where
  "is_digit c = (c \<in> set ''0123456789'')"

text \<open>
  \<^verbatim>\<open>str.isspace\<close> on the code points 0 to 255: tab, line feed, vertical tab, form feed,
  carriage return, the separators 0x1C to 0x1F, the space, NEL (0x85) and the no-break
  space (0xA0). \<^verbatim>\<open>str.split()\<close> without arguments splits at runs of these.
\<close>

definition is_space :: "char \<Rightarrow> bool" where
  "is_space c = (c \<in> set [CHR 0x09, CHR 0x0A, CHR 0x0B, CHR 0x0C, CHR 0x0D, CHR 0x1C,
     CHR 0x1D, CHR 0x1E, CHR 0x1F, CHR 0x20, CHR 0x85, CHR 0xA0])"

text \<open>
  The line boundaries of \<^verbatim>\<open>str.splitlines\<close> on the code points 0 to 255: line feed,
  vertical tab, form feed, carriage return, 0x1C, 0x1D, 0x1E and NEL; a carriage return
  followed by a line feed is one boundary.
\<close>

definition is_linebreak :: "char \<Rightarrow> bool" where
  "is_linebreak c = (c \<in> set [CHR 0x0A, CHR 0x0B, CHR 0x0C, CHR 0x0D, CHR 0x1C, CHR 0x1D,
     CHR 0x1E, CHR 0x85])"

section \<open>The tag matcher\<close>

subsection \<open>The regular expression\<close>

text \<open>
  \<^verbatim>\<open>re.search(r"(?i)date.*(\d{4}?)", tag, re.IGNORECASE)\<close>: the leftmost position where
  \<^verbatim>\<open>date\<close> stands (in any case) and four digits follow somewhere on the same line. The
  greedy \<^verbatim>\<open>.*\<close> takes the rest of the line (\<^verbatim>\<open>.\<close> matches every character but the line
  feed) and gives characters back one at a time until four digits follow it, so the group is
  the rightmost run of four digits of that line. \<^verbatim>\<open>{4}?\<close> is the lazy form of \<^verbatim>\<open>{4}\<close>:
  exactly four digits either way. The result is \<^verbatim>\<open>match.group(1)\<close> when there is a match.
\<close>

definition starts_with_date :: "string \<Rightarrow> bool" where
  "starts_with_date s = (upper (take 4 s) = ''DATE'')"

definition digits4 :: "string \<Rightarrow> bool" where
  "digits4 s = (length s = 4 \<and> list_all is_digit s)"

fun greedy_group :: "string \<Rightarrow> nat \<Rightarrow> string option" where
  "greedy_group line 0 = (if digits4 (take 4 line) then Some (take 4 line) else None)"
| "greedy_group line (Suc j) =
     (if digits4 (take 4 (drop (Suc j) line)) then Some (take 4 (drop (Suc j) line))
      else greedy_group line j)"

fun re_search :: "string \<Rightarrow> string option" where
  "re_search [] = None"
| "re_search (c # cs) =
     (if starts_with_date (c # cs) then
        (let line = takeWhile (\<lambda>x. x \<noteq> CHR 0x0A) (drop 4 (c # cs)) in
         case greedy_group line (length line) of
           Some g \<Rightarrow> Some g
         | None \<Rightarrow> re_search cs)
      else re_search cs)"

subsection \<open>find\_target\_tags\<close>

text \<open>
  A path is the list of its components below the filesystem root. The dictionaries the
  stages pass on are records; the keys \<^verbatim>\<open>file_path\<close>, \<^verbatim>\<open>tags\<close>, \<^verbatim>\<open>errors\<close> and \<^verbatim>\<open>toi\<close> carry
  a prefix for the stage that writes them.
\<close>

type_synonym path = "string list"

record tag_read =
  tr_file_path :: path
  tr_tags :: "string list"
  tr_errors :: string

record match_result =
  mr_file_path :: path
  mr_toi :: "string option"
  mr_errors :: string

text \<open>
  The exceptions that the modelled code can raise. \<^verbatim>\<open>shutil.Error\<close> is the one the mover
  catches apart from the others.
\<close>

datatype exn =
    UnboundLocalError string
  | ValueError string
  | TypeError string
  | FileNotFoundError path
  | NotADirectoryError path
  | FileExistsError path
  | ShutilError string path

text \<open>
  The local variable \<^verbatim>\<open>match\<close> is assigned only inside the loop over a file's tags, and
  it is not reset between files: it is unassigned until the first tag of the batch is
  searched, and after that holds the result of the latest search (\<open>None\<close> for no match,
  the first group of the match otherwise).
\<close>

datatype 'a local_var = Unassigned | Assigned 'a

fun scan_tags :: "string option local_var \<Rightarrow> string list \<Rightarrow> string option local_var" where
  "scan_tags m [] = m"
| "scan_tags m (tag # rest) =
     (case re_search tag of
        Some g \<Rightarrow> Assigned (Some g)
      | None \<Rightarrow> scan_tags (Assigned None) rest)"

fun match_files ::
  "string option local_var \<Rightarrow> tag_read list \<Rightarrow> match_result list \<Rightarrow> exn + match_result list"
where
  "match_files m [] results = Inr results"
| "match_files m (f # rest) results =
     (case scan_tags m (tr_tags f) of
        Unassigned \<Rightarrow> Inl (UnboundLocalError ''match'')
      | Assigned r \<Rightarrow>
          match_files (Assigned r) rest
            (results @ [\<lparr>mr_file_path = tr_file_path f, mr_toi = r, mr_errors = ''''\<rparr>]))"

definition find_target_tags :: "tag_read list \<Rightarrow> string \<Rightarrow> exn + match_result list" where
  "find_target_tags files tag_info_search =
     (if tag_info_search = ''YEAR'' then match_files Unassigned files [] else Inr [])"

text \<open>
  What the scan over the tags of one file computes when the file has at least one tag:
  the group of the first tag that matches.
\<close>

fun first_match :: "string list \<Rightarrow> string option" where
  "first_match [] = None"
| "first_match (tag # rest) =
     (case re_search tag of Some g \<Rightarrow> Some g | None \<Rightarrow> first_match rest)"

section \<open>Paths\<close>

text \<open>
  \<^verbatim>\<open>Path.name\<close> is the last component. \<^verbatim>\<open>Path.suffix\<close> is the part of the name from its
  last dot on, when that dot is neither the first nor the last character of the name, and
  the empty string otherwise (pathlib up to Python 3.11; the script imports
  \<^verbatim>\<open>distutils\<close>, which later versions do not have).
\<close>

definition name_of :: "path \<Rightarrow> string" where
  "name_of p = (if p = [] then [] else last p)"

definition rfind :: "char \<Rightarrow> string \<Rightarrow> nat option" where
  "rfind c s =
     (if c \<in> set s then Some (length s - 1 - length (takeWhile (\<lambda>x. x \<noteq> c) (rev s)))
      else None)"

definition path_suffix :: "string \<Rightarrow> string" where
  "path_suffix name =
     (case rfind (CHR ''.'') name of
        None \<Rightarrow> []
      | Some i \<Rightarrow> if 0 < i \<and> i < length name - 1 then drop i name else [])"

definition strip_dots :: "string \<Rightarrow> string" where
  "strip_dots s =
     rev (dropWhile (\<lambda>x. x = CHR ''.'') (rev (dropWhile (\<lambda>x. x = CHR ''.'') s)))"

text \<open>
  \<^verbatim>\<open>Path(s)\<close> for a string: whether it is absolute, and its components. Empty components
  and single dots are dropped, \<^verbatim>\<open>..\<close> is kept. \<^verbatim>\<open>a / b\<close> is \<open>b\<close> when \<open>b\<close> is absolute.
  Only \<^verbatim>\<open>resolve\<close> gives \<^verbatim>\<open>..\<close> its meaning; the filesystem calls below take a component
  \<^verbatim>\<open>..\<close> as a name, which no token of the matcher (four digits) contains.
\<close>

fun split_on :: "char \<Rightarrow> string \<Rightarrow> string \<Rightarrow> string list" where
  "split_on sep cur [] = [cur]"
| "split_on sep cur (c # cs) =
     (if c = sep then cur # split_on sep [] cs else split_on sep (cur @ [c]) cs)"

definition path_parts :: "string \<Rightarrow> bool \<times> string list" where
  "path_parts s =
     (s \<noteq> [] \<and> hd s = CHR ''/'',
      filter (\<lambda>c. c \<noteq> [] \<and> c \<noteq> ''.'') (split_on (CHR ''/'') [] s))"

definition join_path :: "path \<Rightarrow> bool \<times> string list \<Rightarrow> path" where
  "join_path base rel = (if fst rel then snd rel else base @ snd rel)"

section \<open>The filesystem\<close>

text \<open>
  The filesystem is a list of entries, each a path with a regular file (and its content)
  or a directory; the root \<open>[]\<close> is always a directory. There are no symbolic links, no
  permissions and one device, so \<^verbatim>\<open>resolve()\<close> of an absolute path without \<^verbatim>\<open>..\<close> is the
  path itself, two paths name the same file only when they are equal, and \<^verbatim>\<open>os.rename\<close>
  fails only for the reasons written out below.
\<close>

datatype node = File string | Dir

type_synonym filesystem = "(path \<times> node) list"

definition lookup :: "filesystem \<Rightarrow> path \<Rightarrow> node option" where
  "lookup fs p = (if p = [] then Some Dir else map_of fs p)"

definition is_file :: "filesystem \<Rightarrow> path \<Rightarrow> bool" where
  "is_file fs p = (case lookup fs p of Some (File c) \<Rightarrow> True | _ \<Rightarrow> False)"

definition is_dir :: "filesystem \<Rightarrow> path \<Rightarrow> bool" where
  "is_dir fs p = (lookup fs p = Some Dir)"

definition fs_del :: "filesystem \<Rightarrow> path \<Rightarrow> filesystem" where
  "fs_del fs p = filter (\<lambda>e. fst e \<noteq> p) fs"

definition fs_put :: "filesystem \<Rightarrow> path \<Rightarrow> node \<Rightarrow> filesystem" where
  "fs_put fs p n = fs_del fs p @ [(p, n)]"

text \<open>
  \<^verbatim>\<open>root_dir.rglob("*")\<close>: every path strictly below the root, each once, and nothing when
  the root is not a directory.
\<close>

definition rglob :: "filesystem \<Rightarrow> path \<Rightarrow> path list" where
  "rglob fs root =
     (if is_dir fs root then filter (\<lambda>p. strict_prefix root p) (remdups (map fst fs)) else [])"

section \<open>File discovery\<close>

definition AVAILABLE_FILE_TYPES :: "string list" where
  "AVAILABLE_FILE_TYPES = [''JPG'', ''JPEG'', ''TIF'', ''TIFF'', ''PNG'']"

fun classify :: "path list \<Rightarrow> path list \<Rightarrow> path list \<Rightarrow> path list \<times> path list" where
  "classify [] valid_paths excluded_paths = (valid_paths, excluded_paths)"
| "classify (p # rest) valid_paths excluded_paths =
     (if strip_dots (upper (path_suffix (name_of p))) \<in> set AVAILABLE_FILE_TYPES
      then classify rest (valid_paths @ [p]) excluded_paths
      else classify rest valid_paths (excluded_paths @ [p]))"

definition get_files :: "filesystem \<Rightarrow> path \<Rightarrow> path list \<times> path list" where
  "get_files fs root_dir =
     (let found_paths = filter (is_file fs) (rglob fs root_dir)
      in classify found_paths [] [])"

text \<open>
  An extension on the allow-list, as the specification speaks of it and said without the
  code: the name is a non-empty stem, a dot, and an extension without dots that is on the
  list once its letters are capitals.
\<close>

definition has_allowed_extension :: "string \<Rightarrow> bool" where
  "has_allowed_extension name =
     (\<exists>stem ext. name = stem @ CHR ''.'' # ext \<and> stem \<noteq> [] \<and> CHR ''.'' \<notin> set ext \<and>
        upper ext \<in> set AVAILABLE_FILE_TYPES)"

section \<open>The metadata reader\<close>

fun splitlines_from :: "string \<Rightarrow> string \<Rightarrow> string list" where
  "splitlines_from cur [] = (if cur = [] then [] else [cur])"
| "splitlines_from cur (c # cs) =
     (if c = CHR 0x0D then
        (case cs of
           [] \<Rightarrow> cur # splitlines_from [] []
         | d # ds \<Rightarrow>
             if d = CHR 0x0A then cur # splitlines_from [] ds
             else cur # splitlines_from [] (d # ds))
      else if is_linebreak c then cur # splitlines_from [] cs
      else splitlines_from (cur @ [c]) cs)"

definition splitlines :: "string \<Rightarrow> string list" where
  "splitlines s = splitlines_from [] s"

text \<open>
  \<^verbatim>\<open>str.split()\<close>: skip whitespace, collect the characters up to the next whitespace as a
  field, repeat.
\<close>

fun split_from :: "string \<Rightarrow> string \<Rightarrow> string list" where
  "split_from cur [] = (if cur = [] then [] else [cur])"
| "split_from cur (c # cs) =
     (if is_space c then (if cur = [] then split_from [] cs else cur # split_from [] cs)
      else split_from (cur @ [c]) cs)"

definition split_ws :: "string \<Rightarrow> string list" where
  "split_ws s = split_from [] s"

fun join :: "string \<Rightarrow> string list \<Rightarrow> string" where
  "join sep [] = []"
| "join sep [x] = x"
| "join sep (x # y # ys) = x @ sep @ join sep (y # ys)"

text \<open>
  The external tool \<^verbatim>\<open>exiv2 -PI\<close> is a parameter: for a file, the text of its standard
  output and of its standard error, as \<^verbatim>\<open>subprocess.run\<close> decodes them. The tool is
  taken to be installed, so that starting it does not fail.
\<close>

type_synonym tool = "path \<Rightarrow> string \<times> string"

text \<open>
  The console and the log. A printed or logged message is kept as a value: the fixed texts
  as they are, the report lines of \<^verbatim>\<open>execute\<close> by what they report, without the
  rendering of paths, counts and JSON. The progress lines are not kept. The log file
  \<^verbatim>\<open>photOrganiser.log\<close> is kept apart from the filesystem: \<open>None\<close> when it does not
  exist, otherwise its entries in order, without the header and the time stamps.
  \<^verbatim>\<open>_verbose_output\<close> is the global variable of the script, \<open>None\<close> until it is assigned.
\<close>

record move_success =
  ms_new_filepath :: path
  ms_old_filepath :: path

record move_failure =
  mf_old_filepath :: path
  mf_error :: exn

datatype message =
    Text string
  | Files_found nat path
  | Files_excluded nat path
  | List_of_found "path list"
  | List_of_excluded "path list"
  | Tags_read "tag_read list"
  | Tags_detected "match_result list"
  | Moved_files "move_success list"
  | Failed_moves "move_failure list"

record world =
  filesys :: filesystem
  cwd :: path
  console :: "message list"
  logfile :: "message list option"
  verbose_output :: "bool option"

definition print_line :: "message \<Rightarrow> world \<Rightarrow> world" where
  "print_line m w = w\<lparr>console := console w @ [m]\<rparr>"

definition log_entries :: "world \<Rightarrow> message list" where
  "log_entries w = (case logfile w of None \<Rightarrow> [] | Some es \<Rightarrow> es)"

definition write_log :: "message \<Rightarrow> world \<Rightarrow> world" where
  "write_log m w = w\<lparr>logfile := Some (log_entries w @ [m])\<rparr>"

fun collect_tags :: "string list \<Rightarrow> string list \<Rightarrow> string list" where
  "collect_tags [] tags = tags"
| "collect_tags (item # rest) tags =
     collect_tags rest (tags @ [join '' '' (drop 3 (split_ws item))])"

fun read_files :: "tool \<Rightarrow> path list \<Rightarrow> tag_read list \<Rightarrow> tag_read list" where
  "read_files run [] results = results"
| "read_files run (f # rest) results =
     (let meta_data = splitlines (fst (run f));
          tags = collect_tags meta_data []
      in read_files run rest
           (results @ [\<lparr>tr_file_path = f, tr_tags = tags, tr_errors = snd (run f)\<rparr>]))"

definition get_iptc_keywords :: "tool \<Rightarrow> path list \<Rightarrow> world \<Rightarrow> tag_read list \<times> world" where
  "get_iptc_keywords run file_paths w =
     (let w1 = print_line (Text ''Reading tags...'') w;
          results = read_files run file_paths []
      in (results, print_line (Text ''Task complete.'') w1))"

section \<open>The mover\<close>

subsection \<open>Library calls on the filesystem\<close>

text \<open>
  \<^verbatim>\<open>os.mkdir\<close>, and \<^verbatim>\<open>Path.mkdir(parents=True, exist_ok=True)\<close> on top of it: a missing
  parent is created first; any other failure is forgiven when the path is a directory
  already.
\<close>

definition os_mkdir :: "filesystem \<Rightarrow> path \<Rightarrow> exn + filesystem" where
  "os_mkdir fs p =
     (if lookup fs p \<noteq> None then Inl (FileExistsError p)
      else case lookup fs (butlast p) of
             None \<Rightarrow> Inl (FileNotFoundError p)
           | Some (File c) \<Rightarrow> Inl (NotADirectoryError p)
           | Some Dir \<Rightarrow> Inr (fs @ [(p, Dir)]))"

function mkdir_parents :: "filesystem \<Rightarrow> path \<Rightarrow> exn + filesystem" where
  "mkdir_parents fs p =
     (case os_mkdir fs p of
        Inr fs1 \<Rightarrow> Inr fs1
      | Inl (FileNotFoundError q) \<Rightarrow>
          (if p = [] then Inl (FileNotFoundError q)
           else case mkdir_parents fs (butlast p) of
                  Inl e \<Rightarrow> Inl e
                | Inr fs1 \<Rightarrow>
                    (case os_mkdir fs1 p of
                       Inr fs2 \<Rightarrow> Inr fs2
                     | Inl (FileNotFoundError r) \<Rightarrow> Inl (FileNotFoundError r)
                     | Inl e \<Rightarrow> if is_dir fs1 p then Inr fs1 else Inl e))
      | Inl e \<Rightarrow> if is_dir fs p then Inr fs else Inl e)"
  by pat_completeness auto
termination
  by (relation "measure (\<lambda>(fs, p). length p)") auto

declare mkdir_parents.simps [simp del]

text \<open>
  \<^verbatim>\<open>shutil.move(src, dst)\<close>. When \<open>dst\<close> is a directory the source goes inside it under
  its own name, and the call raises \<^verbatim>\<open>shutil.Error\<close> when that name is taken there. The
  move itself is \<^verbatim>\<open>os.rename\<close>, which replaces a regular file at the destination without
  notice; where it fails, the copy that \<^verbatim>\<open>shutil.move\<close> falls back to fails too (there is
  one device), except that it creates the missing parents of a directory's destination.
  A directory cannot go inside itself (\<^verbatim>\<open>shutil.Error\<close> again). The result is the new
  filesystem and the value returned: the destination, or nothing when source and
  destination are the same directory. \<open>rename_or_copy\<close> is only called with a destination
  that is not a directory.
\<close>

definition rename_or_copy :: "filesystem \<Rightarrow> path \<Rightarrow> path \<Rightarrow> exn + filesystem" where
  "rename_or_copy fs src real_dst =
     (case lookup fs src of
        None \<Rightarrow> Inl (FileNotFoundError src)
      | Some (File c) \<Rightarrow>
          (if is_dir fs (butlast real_dst) then Inr (fs_put (fs_del fs src) real_dst (File c))
           else if is_file fs (butlast real_dst) then Inl (NotADirectoryError real_dst)
           else Inl (FileNotFoundError real_dst))
      | Some Dir \<Rightarrow>
          (if prefix src real_dst
           then Inl (ShutilError ''Cannot move a directory into itself'' real_dst)
           else if is_file fs real_dst then Inl (FileExistsError real_dst)
           else case mkdir_parents fs (butlast real_dst) of
                  Inl e \<Rightarrow> Inl e
                | Inr fs1 \<Rightarrow>
                    Inr (map (\<lambda>e. if prefix src (fst e)
                                   then (real_dst @ drop (length src) (fst e), snd e)
                                   else e) fs1)))"

definition shutil_move :: "filesystem \<Rightarrow> path \<Rightarrow> path \<Rightarrow> exn + filesystem \<times> path option" where
  "shutil_move fs src dst =
     (if is_dir fs dst then
        (if src = dst then Inr (fs, None)
         else let real_dst = dst @ [name_of src] in
              if lookup fs real_dst \<noteq> None
              then Inl (ShutilError ''Destination path already exists'' real_dst)
              else case rename_or_copy fs src real_dst of
                     Inl e \<Rightarrow> Inl e
                   | Inr fs1 \<Rightarrow> Inr (fs1, Some real_dst))
      else case rename_or_copy fs src dst of
             Inl e \<Rightarrow> Inl e
           | Inr fs1 \<Rightarrow> Inr (fs1, Some dst))"

subsection \<open>\_move\_images\<close>

text \<open>
  \<^verbatim>\<open>_v\<close> prints when the global flag is set and always writes the log; it raises
  \<^verbatim>\<open>NameError\<close> (here with the other unbound names) while the global is not assigned.
\<close>

definition v :: "message \<Rightarrow> world \<Rightarrow> exn + world" where
  "v m w =
     (case verbose_output w of
        None \<Rightarrow> Inl (UnboundLocalError ''_verbose_output'')
      | Some b \<Rightarrow> Inr (write_log m (if b then print_line m w else w)))"

text \<open>
  \<^verbatim>\<open>uuid.uuid4()\<close> is random: the text of the identifier drawn for the image at index
  \<open>idx\<close> is a parameter of the run.
\<close>

definition gen_filename :: "string \<Rightarrow> string \<Rightarrow> string" where
  \<comment> \<open>\<^verbatim>\<open>Path(str(uuid.uuid4()) + suffix)\<close>\<close>
  "gen_filename uuid4 sfx = uuid4 @ sfx"

definition target_dir_of :: "path \<Rightarrow> string option \<Rightarrow> path" where
  "target_dir_of root_dir toi =
     (case toi of
        None \<Rightarrow> root_dir @ [''unorganised'']
      | Some t \<Rightarrow>
          if t \<noteq> [] then join_path root_dir (path_parts t) else root_dir @ [''unorganised''])"

text \<open>
  The body of the loop, one image: the three ways it ends are a success record, a failure
  record, or neither (the handler of \<^verbatim>\<open>shutil.Error\<close> only logs).
\<close>

datatype outcome = Moved move_success | Failed move_failure | Not_moved

definition move_image ::
  "match_result \<Rightarrow> path \<Rightarrow> bool \<Rightarrow> string \<Rightarrow> world \<Rightarrow> outcome \<times> world" where
  "move_image img root_dir rename_files uuid4 w =
     (let target_dir = target_dir_of root_dir (mr_toi img) in
      case mkdir_parents (filesys w) target_dir of
        Inl e \<Rightarrow> (Failed \<lparr>mf_old_filepath = mr_file_path img, mf_error = e\<rparr>, w)
      | Inr fs1 \<Rightarrow>
          (case shutil_move fs1 (mr_file_path img)
                  (if rename_files
                   then target_dir @ [gen_filename uuid4 (path_suffix (name_of (mr_file_path img)))]
                   else target_dir) of
             Inr (fs2, Some new_path) \<Rightarrow>
               (Moved \<lparr>ms_new_filepath = new_path, ms_old_filepath = mr_file_path img\<rparr>,
                w\<lparr>filesys := fs2\<rparr>)
           | Inr (fs2, None) \<Rightarrow>
               (Failed \<lparr>mf_old_filepath = mr_file_path img,
                        mf_error = TypeError ''expected str, bytes or os.PathLike object''\<rparr>,
                w\<lparr>filesys := fs2\<rparr>)
           | Inl (ShutilError m p) \<Rightarrow>
               (case v (Text ''File already exists as this path. Not moving.'') (w\<lparr>filesys := fs1\<rparr>) of
                  Inr w1 \<Rightarrow> (Not_moved, w1)
                | Inl e \<Rightarrow>
                    (Failed \<lparr>mf_old_filepath = mr_file_path img, mf_error = e\<rparr>, w\<lparr>filesys := fs1\<rparr>))
           | Inl e \<Rightarrow>
               (Failed \<lparr>mf_old_filepath = mr_file_path img, mf_error = e\<rparr>, w\<lparr>filesys := fs1\<rparr>)))"

fun move_loop ::
  "nat \<Rightarrow> match_result list \<Rightarrow> path \<Rightarrow> bool \<Rightarrow> (nat \<Rightarrow> string) \<Rightarrow> world \<Rightarrow>
   move_success list \<Rightarrow> move_failure list \<Rightarrow> move_success list \<times> move_failure list \<times> world"
where
  "move_loop idx [] root_dir rename_files uuids w successful errors = (successful, errors, w)"
| "move_loop idx (img # rest) root_dir rename_files uuids w successful errors =
     (case move_image img root_dir rename_files (uuids idx) w of
        (Moved r, w1) \<Rightarrow>
          move_loop (Suc idx) rest root_dir rename_files uuids w1 (successful @ [r]) errors
      | (Failed r, w1) \<Rightarrow>
          move_loop (Suc idx) rest root_dir rename_files uuids w1 successful (errors @ [r])
      | (Not_moved, w1) \<Rightarrow>
          move_loop (Suc idx) rest root_dir rename_files uuids w1 successful errors)"

definition move_images ::
  "match_result list \<Rightarrow> path \<Rightarrow> bool \<Rightarrow> (nat \<Rightarrow> string) \<Rightarrow> world \<Rightarrow>
   move_success list \<times> move_failure list \<times> world" where
  "move_images images root_dir rename_files uuids w =
     (case move_loop 0 images root_dir rename_files uuids
             (print_line (Text ''Moving images...'') w) [] [] of
        (successful, errors, w1) \<Rightarrow>
          (successful, errors, print_line (Text ''Task complete.'') w1))"

section \<open>The run\<close>

text \<open>
  The arguments have the types that the signature of \<^verbatim>\<open>execute\<close> and the command line
  give them, so the type tests of \<^verbatim>\<open>_validate_args\<close> pass; an empty string is false in
  Python, which skips the test of that argument. The result is the cleaned
  \<^verbatim>\<open>meta_type\<close>, \<^verbatim>\<open>tag_type\<close> and \<^verbatim>\<open>tag_info_search\<close>.
\<close>

definition AVAILABLE_META_TYPES :: "string list" where
  "AVAILABLE_META_TYPES = [''IPTC'']"

definition AVAILABLE_TAG_TYPES :: "string list" where
  "AVAILABLE_TAG_TYPES = [''KEYWORDS'']"

definition AVAILABLE_TAG_INFO_SEARCH :: "string list" where
  "AVAILABLE_TAG_INFO_SEARCH = [''YEAR'']"

definition validate_args ::
  "string \<Rightarrow> bool \<Rightarrow> bool \<Rightarrow> string \<Rightarrow> string \<Rightarrow> string \<Rightarrow> exn + string \<times> string \<times> string" where
  "validate_args root_dir verbose rename_files meta_type tag_type tag_info_search =
     (if root_dir \<noteq> [] \<and> hd root_dir = CHR ''.''
      then Inl (ValueError ''Invalid root path. Aborting attempt.'')
      else if meta_type \<noteq> [] \<and> upper meta_type \<notin> set AVAILABLE_META_TYPES
      then Inl (ValueError ''Invalid meta type option. Aborting attempt.'')
      else if tag_type \<noteq> [] \<and> upper tag_type \<notin> set AVAILABLE_TAG_TYPES
      then Inl (ValueError ''Invalid tag type option. Aborting attempt.'')
      else if tag_info_search \<noteq> [] \<and> upper tag_info_search \<notin> set AVAILABLE_TAG_INFO_SEARCH
      then Inl (ValueError ''Invalid tag search option. Aborting attempt.'')
      else Inr (upper meta_type, upper tag_type, upper tag_info_search))"

definition mode_selector ::
  "string \<Rightarrow> string \<Rightarrow> (tool \<Rightarrow> path list \<Rightarrow> world \<Rightarrow> tag_read list \<times> world) option" where
  "mode_selector meta_type tag_type =
     (if meta_type = ''IPTC'' \<and> tag_type = ''KEYWORDS'' then Some get_iptc_keywords else None)"

text \<open>
  \<^verbatim>\<open>Path(root_dir).resolve(strict=True)\<close>: the components are followed from the working
  directory (from the root for an absolute path); \<^verbatim>\<open>..\<close> steps back, and a component that
  does not exist raises.
\<close>

fun walk :: "filesystem \<Rightarrow> path \<Rightarrow> string list \<Rightarrow> exn + path" where
  "walk fs cur [] = Inr cur"
| "walk fs cur (name # rest) =
     (if name = ''..'' then walk fs (butlast cur) rest
      else if lookup fs (cur @ [name]) = None
      then Inl (if is_file fs cur then NotADirectoryError (cur @ [name])
                else FileNotFoundError (cur @ [name]))
      else walk fs (cur @ [name]) rest)"

definition resolve_strict :: "filesystem \<Rightarrow> path \<Rightarrow> string \<Rightarrow> exn + path" where
  "resolve_strict fs cur s =
     walk fs (if fst (path_parts s) then [] else cur) (snd (path_parts s))"

fun v_all :: "message list \<Rightarrow> world \<Rightarrow> exn + world" where
  "v_all [] w = Inr w"
| "v_all (m # ms) w = (case v m w of Inl e \<Rightarrow> Inl e | Inr w1 \<Rightarrow> v_all ms w1)"

text \<open>
  The two handlers of \<^verbatim>\<open>execute\<close>; any other exception leaves \<^verbatim>\<open>execute\<close>. The result of
  a run is the world after it and the exception that left it, if any.
\<close>

definition handle_exn :: "exn \<Rightarrow> world \<Rightarrow> world \<times> exn option" where
  "handle_exn e w =
     (case e of
        FileNotFoundError p \<Rightarrow>
          (print_line (Text ''Root directory was not found. Aborting attempt.'') w, None)
      | ValueError m \<Rightarrow> (print_line (Text m) w, None)
      | _ \<Rightarrow> (w, Some e))"

definition execute ::
  "tool \<Rightarrow> (nat \<Rightarrow> string) \<Rightarrow> string \<Rightarrow> bool \<Rightarrow> bool \<Rightarrow> string \<Rightarrow> string \<Rightarrow> string \<Rightarrow>
   world \<Rightarrow> world \<times> exn option" where
  "execute run uuids root_dir verbose rename_files meta_type tag_type tag_info_search w =
     (case validate_args root_dir verbose rename_files meta_type tag_type tag_info_search of
        Inl e \<Rightarrow> handle_exn e w
      | Inr (c_meta_type, c_tag_type, c_tag_info_search) \<Rightarrow>
          (let w1 = w\<lparr>verbose_output := Some verbose\<rparr> in
           case resolve_strict (filesys w1) (cwd w1) root_dir of
             Inl e \<Rightarrow> handle_exn e w1
           | Inr root \<Rightarrow>
               (let w2 = print_line (Text ''Starting process...'') w1;
                    found_paths = fst (get_files (filesys w2) root);
                    excluded_paths = snd (get_files (filesys w2) root)
                in case mode_selector c_meta_type c_tag_type of
                     None \<Rightarrow> handle_exn (TypeError ''NoneType object is not callable'') w2
                   | Some reader \<Rightarrow>
                       (case reader run found_paths w2 of
                          (results, w3) \<Rightarrow>
                            (case find_target_tags results c_tag_info_search of
                               Inl e \<Rightarrow> handle_exn e w3
                             | Inr image_matches \<Rightarrow>
                                 (case move_images image_matches root rename_files uuids w3 of
                                    (moved, move_failed, w4) \<Rightarrow>
                                      (case v_all
                                              [Files_found (length found_paths) root,
                                               Files_excluded (length excluded_paths) root,
                                               List_of_found found_paths,
                                               List_of_excluded excluded_paths,
                                               Tags_read results,
                                               Tags_detected image_matches,
                                               Moved_files moved,
                                               Failed_moves move_failed] w4 of
                                         Inl e \<Rightarrow> handle_exn e w4
                                       | Inr w5 \<Rightarrow> (w5, None))))))))"

text \<open>
  The output of the tool as the specification reads it, said without the code. A line is
  some blank lead, fields that are each followed by at least one blank, and a last field
  that may be missing; a field is a non-empty run of characters that are not whitespace,
  and a blank is a whitespace character that does not end a line. The output is a sequence
  of lines, each ended by a line feed (or by another line boundary that survives the text
  mode of \<^verbatim>\<open>subprocess.run\<close>, which turns every carriage return into a line feed), and a
  last line without an end, which may be empty. The tag of a line is its fields from the
  fourth on with one space between them.
\<close>

type_synonym spaced_line = "string \<times> (string \<times> string) list \<times> string"

definition blank :: "string \<Rightarrow> bool" where
  "blank s = list_all (\<lambda>c. is_space c \<and> \<not> is_linebreak c) s"

definition no_space :: "string \<Rightarrow> bool" where
  "no_space s = list_all (\<lambda>c. \<not> is_space c) s"

definition line_text :: "spaced_line \<Rightarrow> string" where
  "line_text ln =
     (case ln of (lead, ps, last_field) \<Rightarrow>
        lead @ concat (map (\<lambda>(field, sep). field @ sep) ps) @ last_field)"

definition line_fields :: "spaced_line \<Rightarrow> string list" where
  "line_fields ln =
     (case ln of (lead, ps, last_field) \<Rightarrow>
        map fst ps @ (if last_field = [] then [] else [last_field]))"

definition well_spaced :: "spaced_line \<Rightarrow> bool" where
  "well_spaced ln =
     (case ln of (lead, ps, last_field) \<Rightarrow>
        blank lead \<and>
        list_all (\<lambda>(field, sep). field \<noteq> [] \<and> no_space field \<and> sep \<noteq> [] \<and> blank sep) ps \<and>
        no_space last_field)"

definition line_end :: "string \<Rightarrow> bool" where
  "line_end t =
     (t \<in> set [[CHR 0x0A], [CHR 0x0D, CHR 0x0A], [CHR 0x0B], [CHR 0x0C], [CHR 0x1C],
                [CHR 0x1D], [CHR 0x1E], [CHR 0x85]])"

definition output_text :: "(spaced_line \<times> string) list \<Rightarrow> spaced_line \<Rightarrow> string" where
  "output_text doc final = concat (map (\<lambda>(ln, t). line_text ln @ t) doc) @ line_text final"

definition fourth_onward :: "string list \<Rightarrow> string" where
  "fourth_onward ws =
     (case drop 3 ws of
        [] \<Rightarrow> []
      | x # xs \<Rightarrow> x @ concat (map (\<lambda>field. CHR '' '' # field) xs))"

section \<open>A small photo folder\<close>

text \<open>
  A folder to run the stages on: three images and a text file in \<^verbatim>\<open>/pics\<close>, an image
  without metadata, a year folder that already holds an \<^verbatim>\<open>a.jpg\<close>, and a regular file
  that has the name of a year. The tool reports a dated keyword for the two \<^verbatim>\<open>a.jpg\<close> and
  for \<^verbatim>\<open>c.tif\<close>, an undated keyword for \<^verbatim>\<open>b.png\<close>, and nothing but a complaint for every
  other file.
\<close>

definition example_fs :: filesystem where
  "example_fs =
     [([''pics''], Dir),
      ([''pics'', ''a.jpg''], File ''A''),
      ([''pics'', ''b.png''], File ''B''),
      ([''pics'', ''c.tif''], File ''C''),
      ([''pics'', ''d.png''], File ''D''),
      ([''pics'', ''notes.txt''], File ''N''),
      ([''pics'', ''1984''], Dir),
      ([''pics'', ''1984'', ''a.jpg''], File ''earlier''),
      ([''pics'', ''2001''], File ''not a folder'')]"

definition example_world :: world where
  "example_world =
     \<lparr>filesys = example_fs, cwd = [''pics''], console = [], logfile = None,
      verbose_output = Some False\<rparr>"

definition example_tool :: tool where
  "example_tool p =
     (if p = [''pics'', ''a.jpg''] \<or> p = [''pics'', ''1984'', ''a.jpg'']
      then (''Iptc.Application2.Keywords String 25 Location DATE: 1984 Paris'' @ [CHR 0x0A], [])
      else if p = [''pics'', ''b.png'']
      then (''Iptc.Application2.Keywords String 7 holiday'' @ [CHR 0x0A], [])
      else if p = [''pics'', ''c.tif'']
      then (''Iptc.Application2.Keywords String 10 date: 2001'' @ [CHR 0x0A], [])
      else ([], ''no IPTC data''))"

text \<open>
  A listing of four lines for \<^verbatim>\<open>a.jpg\<close>, the last one without a line feed, first as the
  tool prints it and then taken apart into lead, fields, blanks and line ends.
\<close>

definition listing_tool :: tool where
  "listing_tool p =
     (if p = [''pics'', ''a.jpg'']
      then (''Iptc.Application2.Keywords  String 25 Location DATE: 1984 Paris'' @ [CHR 0x0A] @
            '' Iptc.Application2.Keywords String 7 holiday'' @ [CHR 0x0A] @
            ''short line'' @ [CHR 0x0A] @
            ''Iptc.Application2.Keywords String 4 last'',
            ''warning'')
      else ([], ''no IPTC data''))"

definition listing_lines :: "(spaced_line \<times> string) list" where
  "listing_lines =
     [(([], [(''Iptc.Application2.Keywords'', ''  ''), (''String'', '' ''), (''25'', '' ''),
             (''Location'', '' ''), (''DATE:'', '' ''), (''1984'', '' '')], ''Paris''),
       [CHR 0x0A]),
      (('' '', [(''Iptc.Application2.Keywords'', '' ''), (''String'', '' ''), (''7'', '' '')],
        ''holiday''),
       [CHR 0x0A]),
      (([], [(''short'', '' '')], ''line''), [CHR 0x0A])]"

definition listing_last_line :: spaced_line where
  "listing_last_line =
     ([], [(''Iptc.Application2.Keywords'', '' ''), (''String'', '' ''), (''4'', '' '')], ''last'')"

section \<open>Properties of the tag matcher\<close>

lemma scan_tags_nonempty: "tags \<noteq> [] \<Longrightarrow> scan_tags m tags = Assigned (first_match tags)"
proof (induction tags arbitrary: m)
  case Nil
  then show ?case by simp
next
  case (Cons tag rest)
  show ?case
  proof (cases "re_search tag")
    case None
    then show ?thesis
      using Cons.IH [of "Assigned None"] by (cases rest) simp_all
  next
    case (Some g)
    then show ?thesis by simp
  qed
qed

lemma scan_tags_empty: "scan_tags m [] = m"
  by simp

lemma match_files_paths:
  "match_files m files acc = Inr rs \<Longrightarrow>
   map mr_file_path rs = map mr_file_path acc @ map tr_file_path files"
proof (induction files arbitrary: m acc)
  case Nil
  then show ?case by simp
next
  case (Cons f rest)
  then show ?case
    by (cases "scan_tags m (tr_tags f)") auto
qed

lemma match_files_keeps_acc:
  "match_files m files acc = Inr rs \<Longrightarrow> take (length acc) rs = acc"
proof (induction files arbitrary: m acc)
  case Nil
  then show ?case by simp
next
  case (Cons f rest)
  show ?case
  proof (cases "scan_tags m (tr_tags f)")
    case Unassigned
    with Cons.prems show ?thesis by simp
  next
    case (Assigned r)
    let ?r = "\<lparr>mr_file_path = tr_file_path f, mr_toi = r, mr_errors = ''''\<rparr>"
    from Cons.prems Assigned have "match_files (Assigned r) rest (acc @ [?r]) = Inr rs"
      by simp
    then have "take (length (acc @ [?r])) rs = acc @ [?r]"
      by (rule Cons.IH)
    then have "take (length acc) (take (length (acc @ [?r])) rs) = take (length acc) (acc @ [?r])"
      by simp
    then show ?thesis by (simp add: min_def)
  qed
qed

lemma match_files_at:
  "match_files m (before @ f # after) acc = Inr rs \<Longrightarrow> tr_tags f \<noteq> [] \<Longrightarrow>
   rs ! (length acc + length before) =
     \<lparr>mr_file_path = tr_file_path f, mr_toi = first_match (tr_tags f), mr_errors = ''''\<rparr>"
proof (induction before arbitrary: m acc)
  case Nil
  let ?r = "\<lparr>mr_file_path = tr_file_path f, mr_toi = first_match (tr_tags f), mr_errors = ''''\<rparr>"
  from Nil have "match_files (Assigned (first_match (tr_tags f))) after (acc @ [?r]) = Inr rs"
    by (simp add: scan_tags_nonempty)
  then have "take (length (acc @ [?r])) rs = acc @ [?r]"
    by (rule match_files_keeps_acc)
  then have "(take (length (acc @ [?r])) rs) ! length acc = (acc @ [?r]) ! length acc"
    by simp
  then show ?case by simp
next
  case (Cons b before)
  show ?case
  proof (cases "scan_tags m (tr_tags b)")
    case Unassigned
    with Cons.prems show ?thesis by simp
  next
    case (Assigned r)
    let ?r = "\<lparr>mr_file_path = tr_file_path b, mr_toi = r, mr_errors = ''''\<rparr>"
    from Cons.prems Assigned
    have "match_files (Assigned r) (before @ f # after) (acc @ [?r]) = Inr rs"
      by simp
    from Cons.IH [OF this Cons.prems(2)] show ?thesis by simp
  qed
qed

lemma first_match_skip:
  "list_all (\<lambda>t. re_search t = None) pre \<Longrightarrow> first_match (pre @ ts) = first_match ts"
  by (induction pre) simp_all

text \<open>
  C10. For every value of \<^verbatim>\<open>tag_info_search\<close> other than \<^verbatim>\<open>"YEAR"\<close>, \<^verbatim>\<open>find_target_tags\<close>
  returns the empty list whatever its input files are; so it gives one match result per
  input file, in order, only when there is no input file at all.
\<close>

theorem find_target_tags_other_mode_empty:
  "tag_info_search \<noteq> ''YEAR'' \<Longrightarrow>
   find_target_tags files tag_info_search = Inr [] \<and>
   ((\<exists>rs. find_target_tags files tag_info_search = Inr rs \<and>
          map mr_file_path rs = map tr_file_path files) \<longleftrightarrow> files = [])"
  by (auto simp: find_target_tags_def)

theorem find_target_tags_other_mode_empty_witness:
  "''MONTH'' \<noteq> ''YEAR'' \<and>
   find_target_tags
     [\<lparr>tr_file_path = [''pics'', ''a.jpg''], tr_tags = [''DATE: 1984''], tr_errors = ''''\<rparr>]
     ''MONTH'' = Inr [] \<and>
   \<not> (\<exists>rs. find_target_tags
          [\<lparr>tr_file_path = [''pics'', ''a.jpg''], tr_tags = [''DATE: 1984''], tr_errors = ''''\<rparr>]
          ''MONTH'' = Inr rs \<and>
        map mr_file_path rs =
          map tr_file_path
            [\<lparr>tr_file_path = [''pics'', ''a.jpg''], tr_tags = [''DATE: 1984''], tr_errors = ''''\<rparr>])"
proof -
  have h: "''MONTH'' \<noteq> ''YEAR''" by simp
  from find_target_tags_other_mode_empty [OF h,
      of "[\<lparr>tr_file_path = [''pics'', ''a.jpg''], tr_tags = [''DATE: 1984''], tr_errors = ''''\<rparr>]"]
  show ?thesis using h by simp
qed

section \<open>Properties of the filesystem calls\<close>

lemma mkdir_parents_existing: "is_dir fs p \<Longrightarrow> mkdir_parents fs p = Inr fs"
  by (subst mkdir_parents.simps) (simp add: os_mkdir_def is_dir_def)

lemma os_mkdir_Inr: "os_mkdir fs p = Inr fs1 \<Longrightarrow> fs1 = fs @ [(p, Dir)] \<and> lookup fs p = None \<and> p \<noteq> []"
  by (auto simp: os_mkdir_def lookup_def split: if_splits option.splits node.splits)

lemma os_mkdir_not_found: "os_mkdir fs p = Inl (FileNotFoundError q) \<Longrightarrow> lookup fs p = None"
  by (auto simp: os_mkdir_def split: if_splits option.splits node.splits)

lemma mkdir_parents_extends:
  "mkdir_parents fs p = Inr fs1 \<Longrightarrow>
   \<exists>extra. fs1 = fs @ extra \<and>
     list_all (\<lambda>e. snd e = Dir \<and> prefix (fst e) p \<and> fst e \<noteq> [] \<and> lookup fs (fst e) = None) extra"
proof (induction fs p arbitrary: fs1 rule: mkdir_parents.induct)
  case (1 fs p)
  show ?case
  proof (cases "os_mkdir fs p")
    case (Inr fs2)
    with "1.prems" have "fs1 = fs2" by (subst (asm) mkdir_parents.simps) simp
    with Inr os_mkdir_Inr [of fs p fs2] show ?thesis
      by (intro exI [of _ "[(p, Dir)]"]) simp
  next
    case (Inl e)
    show ?thesis
    proof (cases "\<exists>q. e = FileNotFoundError q")
      case False
      with Inl "1.prems" have "fs1 = fs"
        by (subst (asm) mkdir_parents.simps) (cases e; simp split: if_splits)
      then show ?thesis by (intro exI [of _ "[]"]) simp
    next
      case True
      then obtain q where e: "e = FileNotFoundError q" by blast
      with Inl have nf: "lookup fs p = None" by (simp add: os_mkdir_not_found)
      then have pne: "p \<noteq> []" by (auto simp: lookup_def)
      from "1.prems" Inl e pne obtain fs2 where
        rec: "mkdir_parents fs (butlast p) = Inr fs2" and
        fin: "(case os_mkdir fs2 p of Inr fs3 \<Rightarrow> Inr fs3
               | Inl (FileNotFoundError r) \<Rightarrow> Inl (FileNotFoundError r)
               | Inl e \<Rightarrow> if is_dir fs2 p then Inr fs2 else Inl e) = Inr fs1"
        by (subst (asm) mkdir_parents.simps) (simp split: sum.splits)
      from "1.IH" [OF Inl e pne rec] obtain extra where
        ex: "fs2 = fs @ extra" and
        all: "list_all (\<lambda>e. snd e = Dir \<and> prefix (fst e) (butlast p) \<and> fst e \<noteq> [] \<and> lookup fs (fst e) = None) extra"
        by blast
      have pb: "prefix (butlast p) p" by (simp add: prefixeq_butlast)
      from all have all': "list_all (\<lambda>e. snd e = Dir \<and> prefix (fst e) p \<and> fst e \<noteq> [] \<and> lookup fs (fst e) = None) extra"
        using pb by (auto simp: list_all_iff intro: prefix_order.trans)
      show ?thesis
      proof (cases "os_mkdir fs2 p")
        case (Inr fs3)
        with fin have "fs1 = fs3" by simp
        with Inr os_mkdir_Inr [of fs2 p fs3] ex all' nf pne show ?thesis
          by (intro exI [of _ "extra @ [(p, Dir)]"]) simp
      next
        case (Inl e2)
        with fin have "fs1 = fs2" by (cases e2; simp split: if_splits)
        with ex all' show ?thesis by blast
      qed
    qed
  qed
qed

lemma mkdir_parents_is_dir: "mkdir_parents fs p = Inr fs1 \<Longrightarrow> is_dir fs1 p"
proof -
  assume a: "mkdir_parents fs p = Inr fs1"
  show ?thesis
  proof (cases "os_mkdir fs p")
    case (Inr fs2)
    with a have "fs1 = fs2" by (subst (asm) mkdir_parents.simps) simp
    with Inr os_mkdir_Inr [of fs p fs2] show ?thesis
      by (auto simp: is_dir_def lookup_def map_add_def split: option.splits)
  next
    case (Inl e)
    show ?thesis
    proof (cases "\<exists>q. e = FileNotFoundError q")
      case False
      with Inl a show ?thesis
        by (subst (asm) mkdir_parents.simps) (cases e; simp split: if_splits)
    next
      case True
      then obtain q where e: "e = FileNotFoundError q" by blast
      with Inl have "lookup fs p = None" by (simp add: os_mkdir_not_found)
      then have pne: "p \<noteq> []" by (auto simp: lookup_def)
      from a Inl e pne obtain fs2 where
        fin: "(case os_mkdir fs2 p of Inr fs3 \<Rightarrow> Inr fs3
               | Inl (FileNotFoundError r) \<Rightarrow> Inl (FileNotFoundError r)
               | Inl e \<Rightarrow> if is_dir fs2 p then Inr fs2 else Inl e) = Inr fs1"
        by (subst (asm) mkdir_parents.simps) (simp split: sum.splits)
      show ?thesis
      proof (cases "os_mkdir fs2 p")
        case (Inr fs3)
        with fin have "fs1 = fs3" by simp
        with Inr os_mkdir_Inr [of fs2 p fs3] show ?thesis
          by (auto simp: is_dir_def lookup_def map_add_def split: option.splits)
      next
        case (Inl e2)
        with fin show ?thesis by (cases e2; simp split: if_splits)
      qed
    qed
  qed
qed

lemma lookup_append_Some:
  "lookup fs q = Some n \<Longrightarrow> lookup (fs @ extra) q = Some n"
  by (auto simp: lookup_def map_add_def split: option.splits)

lemma lookup_append_None:
  "lookup fs q = None \<Longrightarrow> list_all (\<lambda>e. fst e \<noteq> q) extra \<Longrightarrow> lookup (fs @ extra) q = None"
  by (auto simp: lookup_def map_add_def list_all_iff map_of_eq_None_iff split: option.splits if_splits)

lemma mkdir_parents_keeps:
  assumes "mkdir_parents fs p = Inr fs1" and "lookup fs q = Some n"
  shows "lookup fs1 q = Some n"
  using mkdir_parents_extends [OF assms(1)] assms(2) by (auto simp: lookup_append_Some)

lemma mkdir_parents_no_new:
  assumes "mkdir_parents fs p = Inr fs1" and "lookup fs q = None" and "\<not> prefix q p"
  shows "lookup fs1 q = None"
proof -
  from mkdir_parents_extends [OF assms(1)] obtain extra where
    ex: "fs1 = fs @ extra" and
    all: "list_all (\<lambda>e. snd e = Dir \<and> prefix (fst e) p \<and> fst e \<noteq> [] \<and> lookup fs (fst e) = None) extra"
    by blast
  from all assms(3) have "list_all (\<lambda>e. fst e \<noteq> q) extra"
    by (auto simp: list_all_iff)
  with assms(2) ex show ?thesis by (simp add: lookup_append_None)
qed

lemma map_of_filter_other: "q \<noteq> p \<Longrightarrow> map_of (filter (\<lambda>e. fst e \<noteq> p) fs) q = map_of fs q"
  by (induction fs) auto

lemma map_of_filter_same: "map_of (filter (\<lambda>e. fst e \<noteq> p) fs) p = None"
  by (induction fs) auto

lemma lookup_fs_put_same: "p \<noteq> [] \<Longrightarrow> lookup (fs_put fs p n) p = Some n"
  by (simp add: lookup_def fs_put_def fs_del_def map_add_def map_of_filter_same)

lemma lookup_fs_del_same: "p \<noteq> [] \<Longrightarrow> lookup (fs_del fs p) p = None"
  by (simp add: lookup_def fs_del_def map_of_filter_same)

lemma lookup_fs_del_other: "q \<noteq> p \<Longrightarrow> lookup (fs_del fs p) q = lookup fs q"
  by (simp add: lookup_def fs_del_def map_of_filter_other)

lemma lookup_fs_put_other: "q \<noteq> p \<Longrightarrow> lookup (fs_put fs p n) q = lookup fs q"
  by (auto simp: lookup_def fs_put_def fs_del_def map_add_def map_of_filter_other split: option.splits)

lemma shutil_move_into_dir:
  assumes "is_dir fs dst" and "lookup fs src = Some (File c)"
    and "lookup fs (dst @ [name_of src]) = None"
  shows "shutil_move fs src dst =
    Inr (fs_put (fs_del fs src) (dst @ [name_of src]) (File c), Some (dst @ [name_of src]))"
proof -
  from assms(1,2) have "src \<noteq> dst" by (auto simp: is_dir_def)
  with assms show ?thesis
    by (simp add: shutil_move_def rename_or_copy_def Let_def)
qed

lemma shutil_move_collision:
  assumes "is_dir fs dst" and "src \<noteq> dst" and "lookup fs (dst @ [name_of src]) \<noteq> None"
  shows "shutil_move fs src dst =
    Inl (ShutilError ''Destination path already exists'' (dst @ [name_of src]))"
  using assms by (simp add: shutil_move_def Let_def)

lemma shutil_move_to_name:
  assumes "is_dir fs (butlast dst)" and "lookup fs src = Some (File c)" and "\<not> is_dir fs dst"
  shows "shutil_move fs src dst = Inr (fs_put (fs_del fs src) dst (File c), Some dst)"
  using assms by (simp add: shutil_move_def rename_or_copy_def Let_def)

section \<open>Properties of the mover and the reader\<close>

lemma v_assigned:
  "verbose_output w = Some b \<Longrightarrow> v m w = Inr (write_log m (if b then print_line m w else w))"
  by (simp add: v_def)




lemma collect_tags_map:
  "collect_tags items tags = tags @ map (\<lambda>item. join '' '' (drop 3 (split_ws item))) items"
  by (induction items arbitrary: tags) simp_all

lemma read_files_map:
  "read_files run file_paths results =
     results @ map (\<lambda>f. \<lparr>tr_file_path = f,
                         tr_tags = map (\<lambda>item. join '' '' (drop 3 (split_ws item)))
                                     (splitlines (fst (run f))),
                         tr_errors = snd (run f)\<rparr>) file_paths"
  by (induction file_paths arbitrary: results) (simp_all add: collect_tags_map Let_def)

section \<open>The claims about the pipeline\<close>





lemma path_suffix_a_jpg: "path_suffix ''a.jpg'' = ''.jpg''"
  by code_simp

lemma target_dir_1984: "target_dir_of root_dir (Some ''1984'') = root_dir @ [''1984'']"
proof -
  have "path_parts ''1984'' = (False, [''1984''])" by code_simp
  then show ?thesis by (simp add: target_dir_of_def join_path_def)
qed

lemma name_of_snoc: "name_of (dir @ [n]) = n"
  by (simp add: name_of_def)

lemma re_search_location: "re_search ''Location DATE: 1984 Paris'' = Some ''1984''"
  by code_simp

lemma move_image_moved:
  assumes "mkdir_parents (filesys w) (target_dir_of root_dir (mr_toi img)) = Inr fs1"
    and "shutil_move fs1 (mr_file_path img)
           (if rename_files
            then target_dir_of root_dir (mr_toi img) @
                 [gen_filename u (path_suffix (name_of (mr_file_path img)))]
            else target_dir_of root_dir (mr_toi img)) = Inr (fs2, Some new_path)"
  shows "move_image img root_dir rename_files u w =
    (Moved \<lparr>ms_new_filepath = new_path, ms_old_filepath = mr_file_path img\<rparr>,
     w\<lparr>filesys := fs2\<rparr>)"
  using assms by (simp add: move_image_def Let_def)

lemma move_image_not_moved:
  assumes "mkdir_parents (filesys w) (target_dir_of root_dir (mr_toi img)) = Inr fs1"
    and "shutil_move fs1 (mr_file_path img)
           (if rename_files
            then target_dir_of root_dir (mr_toi img) @
                 [gen_filename u (path_suffix (name_of (mr_file_path img)))]
            else target_dir_of root_dir (mr_toi img)) = Inl (ShutilError m p)"
    and "verbose_output w = Some b"
  shows "move_image img root_dir rename_files u w =
    (Not_moved,
     write_log (Text ''File already exists as this path. Not moving.'')
       (if b then print_line (Text ''File already exists as this path. Not moving.'')
                   (w\<lparr>filesys := fs1\<rparr>)
        else w\<lparr>filesys := fs1\<rparr>))"
  using assms by (simp add: move_image_def Let_def v_def)

lemma scan_tags_assigned: "\<exists>r'. scan_tags (Assigned r) tags = Assigned r'"
proof (induction tags arbitrary: r)
  case Nil
  then show ?case by simp
next
  case (Cons tag rest)
  then show ?case by (cases "re_search tag") simp_all
qed

lemma match_files_assigned_returns: "\<exists>rs. match_files (Assigned r) files acc = Inr rs"
proof (induction files arbitrary: r acc)
  case Nil
  then show ?case by simp
next
  case (Cons f rest)
  obtain r' where "scan_tags (Assigned r) (tr_tags f) = Assigned r'"
    using scan_tags_assigned by blast
  with Cons.IH [of r'] show ?case by simp
qed

lemma match_files_returns:
  assumes "files = [] \<or> tr_tags (hd files) \<noteq> []"
  shows "\<exists>rs. match_files Unassigned files [] = Inr rs"
proof (cases files)
  case Nil
  then show ?thesis by simp
next
  case (Cons f rest)
  with assms have "scan_tags Unassigned (tr_tags f) = Assigned (first_match (tr_tags f))"
    by (simp add: scan_tags_nonempty)
  with Cons match_files_assigned_returns [of "first_match (tr_tags f)" rest]
  show ?thesis by simp
qed

text \<open>
  C5, as amended. For a file \<^verbatim>\<open>a.jpg\<close> whose first tag that matches the date pattern is
  \<^verbatim>\<open>Location DATE: 1984 Paris\<close>, in a batch whose first file has at least one tag, the
  matcher returns and the token of the file is \<^verbatim>\<open>1984\<close>; and when the file exists, the
  folder \<^verbatim>\<open>root/1984\<close> can be made and nothing stands at the destination, the file is moved
  to \<^verbatim>\<open>root/1984/a.jpg\<close> with the rename flag unset, or to \<^verbatim>\<open>root/1984/\<close> followed by
  the generated identifier and \<^verbatim>\<open>.jpg\<close> with the flag set: the success record is appended,
  the file is at the new path and no longer at the old one, and the loop goes on.
\<close>

theorem first_dated_tag_1984_moves_to_year_folder:
  assumes pre: "list_all (\<lambda>t. re_search t = None) pre"
    and path: "tr_file_path f = dir @ [''a.jpg'']"
    and tags: "tr_tags f = pre @ ''Location DATE: 1984 Paris'' # post"
    and first_tagged: "before = [] \<or> tr_tags (hd before) \<noteq> []"
    and img: "img = \<lparr>mr_file_path = dir @ [''a.jpg''], mr_toi = Some ''1984'', mr_errors = ''''\<rparr>"
    and src: "lookup (filesys w) (dir @ [''a.jpg'']) = Some (File c)"
    and made: "mkdir_parents (filesys w) (root_dir @ [''1984'']) = Inr fs1"
    and new: "new_path =
        root_dir @ [''1984'', if rename_files then gen_filename (uuids idx) ''.jpg'' else ''a.jpg'']"
    and free: "lookup (filesys w) new_path = None"
  shows "(\<exists>image_matches.
            find_target_tags (before @ f # after) ''YEAR'' = Inr image_matches \<and>
            map mr_file_path image_matches = map tr_file_path (before @ f # after) \<and>
            image_matches ! length before = img) \<and>
         move_loop idx (img # rest) root_dir rename_files uuids w successful errors =
           move_loop (Suc idx) rest root_dir rename_files uuids
             (w\<lparr>filesys := fs_put (fs_del fs1 (dir @ [''a.jpg''])) new_path (File c)\<rparr>)
             (successful @ [\<lparr>ms_new_filepath = new_path, ms_old_filepath = dir @ [''a.jpg'']\<rparr>])
             errors \<and>
         lookup (fs_put (fs_del fs1 (dir @ [''a.jpg''])) new_path (File c)) new_path = Some (File c) \<and>
         lookup (fs_put (fs_del fs1 (dir @ [''a.jpg''])) new_path (File c)) (dir @ [''a.jpg'']) = None"
proof -
  let ?src = "dir @ [''a.jpg'']"
  let ?target = "root_dir @ [''1984'']"
  have fm: "first_match (tr_tags f) = Some ''1984''"
    using pre by (simp add: tags first_match_skip re_search_location del: re_search.simps)
  have "before @ f # after = [] \<or> tr_tags (hd (before @ f # after)) \<noteq> []"
    using first_tagged tags by (cases before) auto
  from match_files_returns [OF this] obtain image_matches where
    ret: "match_files Unassigned (before @ f # after) [] = Inr image_matches"
    by blast
  from match_files_at [OF ret] tags have "image_matches ! (length before) =
      \<lparr>mr_file_path = tr_file_path f, mr_toi = first_match (tr_tags f), mr_errors = ''''\<rparr>"
    by simp
  with img fm path have at: "image_matches ! length before = img"
    by simp
  from match_files_paths [OF ret]
  have paths: "map mr_file_path image_matches = map tr_file_path (before @ f # after)"
    by simp
  from ret have "find_target_tags (before @ f # after) ''YEAR'' = Inr image_matches"
    by (simp add: find_target_tags_def)
  with paths at have token: "\<exists>image_matches.
      find_target_tags (before @ f # after) ''YEAR'' = Inr image_matches \<and>
      map mr_file_path image_matches = map tr_file_path (before @ f # after) \<and>
      image_matches ! length before = img"
    by blast
  have np: "new_path = ?target @
      [if rename_files then gen_filename (uuids idx) ''.jpg'' else ''a.jpg'']"
    by (simp add: new)
  have dir1: "is_dir fs1 ?target" by (rule mkdir_parents_is_dir [OF made])
  have file1: "lookup fs1 ?src = Some (File c)" by (rule mkdir_parents_keeps [OF made src])
  have "\<not> prefix new_path ?target"
    by (simp add: np)
  from mkdir_parents_no_new [OF made free this] have free1: "lookup fs1 new_path = None" .
  have ne: "?src \<noteq> new_path" using src free by auto
  have moved: "shutil_move fs1 ?src
      (if rename_files then ?target @ [gen_filename (uuids idx) (path_suffix (name_of ?src))]
       else ?target) =
      Inr (fs_put (fs_del fs1 ?src) new_path (File c), Some new_path)"
  proof (cases rename_files)
    case True
    then have np': "new_path = ?target @ [gen_filename (uuids idx) ''.jpg'']" by (simp add: np)
    have "\<not> is_dir fs1 new_path" using free1 by (simp add: is_dir_def)
    moreover have "is_dir fs1 (butlast new_path)" using dir1 by (simp add: np' butlast_append)
    ultimately have "shutil_move fs1 ?src new_path =
        Inr (fs_put (fs_del fs1 ?src) new_path (File c), Some new_path)"
      using file1 by (simp add: shutil_move_to_name)
    with True show ?thesis
      by (simp add: np' name_of_snoc path_suffix_a_jpg)
  next
    case False
    then have np': "new_path = ?target @ [name_of ?src]" by (simp add: np name_of_snoc)
    from shutil_move_into_dir [OF dir1 file1] free1 np' False show ?thesis
      by simp
  qed
  have td: "target_dir_of root_dir (mr_toi img) = ?target"
    by (simp add: img target_dir_1984)
  have sp: "mr_file_path img = ?src"
    by (simp add: img)
  have made': "mkdir_parents (filesys w) (target_dir_of root_dir (mr_toi img)) = Inr fs1"
    using made by (simp only: td)
  have moved': "shutil_move fs1 (mr_file_path img)
      (if rename_files
       then target_dir_of root_dir (mr_toi img) @
            [gen_filename (uuids idx) (path_suffix (name_of (mr_file_path img)))]
       else target_dir_of root_dir (mr_toi img)) =
      Inr (fs_put (fs_del fs1 ?src) new_path (File c), Some new_path)"
    using moved by (simp only: td sp)
  have step: "move_image img root_dir rename_files (uuids idx) w =
      (Moved \<lparr>ms_new_filepath = new_path, ms_old_filepath = ?src\<rparr>,
       w\<lparr>filesys := fs_put (fs_del fs1 ?src) new_path (File c)\<rparr>)"
    using move_image_moved [OF made' moved'] by (simp only: sp)
  have npne: "new_path \<noteq> []" by (simp add: np)
  have "lookup (fs_put (fs_del fs1 ?src) new_path (File c)) new_path = Some (File c)"
    by (rule lookup_fs_put_same [OF npne])
  moreover have "lookup (fs_put (fs_del fs1 ?src) new_path (File c)) ?src = None"
    using ne by (simp add: lookup_fs_put_other lookup_fs_del_same)
  ultimately show ?thesis using token step by simp
qed

text \<open>
  C5 as stated fails: the tags include \<^verbatim>\<open>Location DATE: 1984 Paris\<close>, but an earlier tag
  matches the pattern and its year is the token.
\<close>

theorem earlier_dated_tag_wins:
  "''Location DATE: 1984 Paris'' \<in> set [''date 2001'', ''Location DATE: 1984 Paris''] \<and>
   find_target_tags
     [\<lparr>tr_file_path = [''pics'', ''a.jpg''],
       tr_tags = [''date 2001'', ''Location DATE: 1984 Paris''], tr_errors = ''''\<rparr>] ''YEAR'' =
     Inr [\<lparr>mr_file_path = [''pics'', ''a.jpg''], mr_toi = Some ''2001'', mr_errors = ''''\<rparr>]"
  by code_simp

theorem first_dated_tag_1984_moves_to_year_folder_witness:
  "list_all (\<lambda>t. re_search t = None) [''holiday''] \<and>
   find_target_tags
     [\<lparr>tr_file_path = [''pics'', ''b.png''], tr_tags = [''holiday''], tr_errors = ''''\<rparr>,
      \<lparr>tr_file_path = [''pics'', ''d.png''], tr_tags = [], tr_errors = ''no IPTC data''\<rparr>,
      \<lparr>tr_file_path = [''pics'', ''a.jpg''],
       tr_tags = [''holiday'', ''Location DATE: 1984 Paris'', ''date 2001''], tr_errors = ''''\<rparr>,
      \<lparr>tr_file_path = [''pics'', ''c.tif''], tr_tags = [''date: 2001''], tr_errors = ''''\<rparr>]
     ''YEAR'' =
     Inr [\<lparr>mr_file_path = [''pics'', ''b.png''], mr_toi = None, mr_errors = ''''\<rparr>,
          \<lparr>mr_file_path = [''pics'', ''d.png''], mr_toi = None, mr_errors = ''''\<rparr>,
          \<lparr>mr_file_path = [''pics'', ''a.jpg''], mr_toi = Some ''1984'', mr_errors = ''''\<rparr>,
          \<lparr>mr_file_path = [''pics'', ''c.tif''], mr_toi = Some ''2001'', mr_errors = ''''\<rparr>] \<and>
   move_loop 2
     [\<lparr>mr_file_path = [''pics'', ''a.jpg''], mr_toi = Some ''1984'', mr_errors = ''''\<rparr>]
     [''pics''] False (\<lambda>i. ''u'')
     \<lparr>filesys = [([''pics''], Dir), ([''pics'', ''a.jpg''], File ''A'')], cwd = [],
      console = [], logfile = None, verbose_output = Some False\<rparr> [] [] =
   ([\<lparr>ms_new_filepath = [''pics'', ''1984'', ''a.jpg''], ms_old_filepath = [''pics'', ''a.jpg'']\<rparr>],
    [],
    \<lparr>filesys = [([''pics''], Dir), ([''pics'', ''1984''], Dir),
                 ([''pics'', ''1984'', ''a.jpg''], File ''A'')], cwd = [],
      console = [], logfile = None, verbose_output = Some False\<rparr>) \<and>
   move_loop 2
     [\<lparr>mr_file_path = [''pics'', ''a.jpg''], mr_toi = Some ''1984'', mr_errors = ''''\<rparr>]
     [''pics''] True (\<lambda>i. ''u'')
     \<lparr>filesys = [([''pics''], Dir), ([''pics'', ''a.jpg''], File ''A'')], cwd = [],
      console = [], logfile = None, verbose_output = Some False\<rparr> [] [] =
   ([\<lparr>ms_new_filepath = [''pics'', ''1984'', ''u.jpg''], ms_old_filepath = [''pics'', ''a.jpg'']\<rparr>],
    [],
    \<lparr>filesys = [([''pics''], Dir), ([''pics'', ''1984''], Dir),
                 ([''pics'', ''1984'', ''u.jpg''], File ''A'')], cwd = [],
      console = [], logfile = None, verbose_output = Some False\<rparr>)"
proof -
  let ?b = "\<lparr>tr_file_path = [''pics'', ''b.png''], tr_tags = [''holiday''], tr_errors = ''''\<rparr>"
  let ?d = "\<lparr>tr_file_path = [''pics'', ''d.png''], tr_tags = [], tr_errors = ''no IPTC data''\<rparr>"
  let ?f = "\<lparr>tr_file_path = [''pics'', ''a.jpg''],
             tr_tags = [''holiday'', ''Location DATE: 1984 Paris'', ''date 2001''],
             tr_errors = ''''\<rparr>"
  let ?c = "\<lparr>tr_file_path = [''pics'', ''c.tif''], tr_tags = [''date: 2001''], tr_errors = ''''\<rparr>"
  let ?img = "\<lparr>mr_file_path = [''pics'', ''a.jpg''], mr_toi = Some ''1984'', mr_errors = ''''\<rparr>"
  let ?w = "\<lparr>filesys = [([''pics''], Dir), ([''pics'', ''a.jpg''], File ''A'')], cwd = [],
             console = [], logfile = None, verbose_output = Some False\<rparr>"
  have pre: "list_all (\<lambda>t. re_search t = None) [''holiday'']"
    by code_simp
  have path: "tr_file_path ?f = [''pics''] @ [''a.jpg'']"
    by simp
  have tags: "tr_tags ?f = [''holiday''] @ ''Location DATE: 1984 Paris'' # [''date 2001'']"
    by simp
  have first_tagged: "[?b, ?d] = [] \<or> tr_tags (hd [?b, ?d]) \<noteq> []"
    by simp
  have img: "?img = \<lparr>mr_file_path = [''pics''] @ [''a.jpg''], mr_toi = Some ''1984'', mr_errors = ''''\<rparr>"
    by simp
  have found: "find_target_tags [?b, ?d, ?f, ?c] ''YEAR'' =
      Inr [\<lparr>mr_file_path = [''pics'', ''b.png''], mr_toi = None, mr_errors = ''''\<rparr>,
           \<lparr>mr_file_path = [''pics'', ''d.png''], mr_toi = None, mr_errors = ''''\<rparr>,
           ?img,
           \<lparr>mr_file_path = [''pics'', ''c.tif''], mr_toi = Some ''2001'', mr_errors = ''''\<rparr>]"
    by code_simp
  have src: "lookup (filesys ?w) ([''pics''] @ [''a.jpg'']) = Some (File ''A'')"
    by code_simp
  have made: "mkdir_parents (filesys ?w) ([''pics''] @ [''1984'']) =
      Inr [([''pics''], Dir), ([''pics'', ''a.jpg''], File ''A''), ([''pics'', ''1984''], Dir)]"
    by code_simp
  have new_keep: "[''pics'', ''1984'', ''a.jpg''] =
      [''pics''] @ [''1984'', if False then gen_filename ''u'' ''.jpg'' else ''a.jpg'']"
    by simp
  have new_rename: "[''pics'', ''1984'', ''u.jpg''] =
      [''pics''] @ [''1984'', if True then gen_filename ''u'' ''.jpg'' else ''a.jpg'']"
    by (simp add: gen_filename_def)
  have free_keep: "lookup (filesys ?w) [''pics'', ''1984'', ''a.jpg''] = None"
    by code_simp
  have free_rename: "lookup (filesys ?w) [''pics'', ''1984'', ''u.jpg''] = None"
    by code_simp
  have fs_keep: "fs_put (fs_del [([''pics''], Dir), ([''pics'', ''a.jpg''], File ''A''), ([''pics'', ''1984''], Dir)]
        ([''pics''] @ [''a.jpg''])) [''pics'', ''1984'', ''a.jpg''] (File ''A'') =
      [([''pics''], Dir), ([''pics'', ''1984''], Dir), ([''pics'', ''1984'', ''a.jpg''], File ''A'')]"
    by code_simp
  have fs_rename: "fs_put (fs_del [([''pics''], Dir), ([''pics'', ''a.jpg''], File ''A''), ([''pics'', ''1984''], Dir)]
        ([''pics''] @ [''a.jpg''])) [''pics'', ''1984'', ''u.jpg''] (File ''A'') =
      [([''pics''], Dir), ([''pics'', ''1984''], Dir), ([''pics'', ''1984'', ''u.jpg''], File ''A'')]"
    by code_simp
  note keep = first_dated_tag_1984_moves_to_year_folder
    [where uuids = "\<lambda>i. ''u''" and idx = 2 and rename_files = False and rest = "[]"
       and successful = "[]" and errors = "[]" and after = "[?c]",
     OF pre path tags first_tagged img src made new_keep free_keep]
  note rename = first_dated_tag_1984_moves_to_year_folder
    [where uuids = "\<lambda>i. ''u''" and idx = 2 and rename_files = True and rest = "[]"
       and successful = "[]" and errors = "[]" and after = "[?c]",
     OF pre path tags first_tagged img src made new_rename free_rename]
  from keep have "move_loop 2 [?img] [''pics''] False (\<lambda>i. ''u'') ?w [] [] =
      ([\<lparr>ms_new_filepath = [''pics'', ''1984'', ''a.jpg''], ms_old_filepath = [''pics'', ''a.jpg'']\<rparr>],
       [],
       ?w\<lparr>filesys := [([''pics''], Dir), ([''pics'', ''1984''], Dir),
                 ([''pics'', ''1984'', ''a.jpg''], File ''A'')]\<rparr>)"
    unfolding fs_keep by simp
  moreover from rename have "move_loop 2 [?img] [''pics''] True (\<lambda>i. ''u'') ?w [] [] =
      ([\<lparr>ms_new_filepath = [''pics'', ''1984'', ''u.jpg''], ms_old_filepath = [''pics'', ''a.jpg'']\<rparr>],
       [],
       ?w\<lparr>filesys := [([''pics''], Dir), ([''pics'', ''1984''], Dir),
                 ([''pics'', ''1984'', ''u.jpg''], File ''A'')]\<rparr>)"
    unfolding fs_rename by simp
  ultimately show ?thesis using pre found by simp
qed

text \<open>
  C6. With the rename flag unset, an image whose destination folder already holds a file of
  the same name is not moved: the loop body ends without a record in either list, the loop
  goes on with the remaining images and the same lists, the filesystem is unchanged (the
  file is still at its original path), and the log has one more entry. No exception leaves
  the loop: its result is a value.
\<close>

theorem collision_is_not_fatal:
  assumes keep_name: "\<not> rename_files"
    and src: "is_file (filesys w) (mr_file_path img)"
    and folder: "is_dir (filesys w) (target_dir_of root_dir (mr_toi img))"
    and taken: "is_file (filesys w)
                  (target_dir_of root_dir (mr_toi img) @ [name_of (mr_file_path img)])"
    and flag: "verbose_output w = Some b"
    and logged: "w1 = write_log (Text ''File already exists as this path. Not moving.'')
                   (if b then print_line (Text ''File already exists as this path. Not moving.'') w
                    else w)"
  shows "move_image img root_dir rename_files u w = (Not_moved, w1) \<and>
         move_loop idx (img # rest) root_dir rename_files uuids w successful errors =
           move_loop (Suc idx) rest root_dir rename_files uuids w1 successful errors \<and>
         filesys w1 = filesys w \<and>
         is_file (filesys w1) (mr_file_path img) \<and>
         log_entries w1 =
           log_entries w @ [Text ''File already exists as this path. Not moving.'']"
proof -
  let ?target = "target_dir_of root_dir (mr_toi img)"
  from folder have made: "mkdir_parents (filesys w) ?target = Inr (filesys w)"
    by (rule mkdir_parents_existing)
  from src folder have ne: "mr_file_path img \<noteq> ?target"
    by (auto simp: is_file_def is_dir_def)
  from taken have "lookup (filesys w) (?target @ [name_of (mr_file_path img)]) \<noteq> None"
    by (auto simp: is_file_def split: option.splits)
  from shutil_move_collision [OF folder ne this] keep_name
  have mv: "shutil_move (filesys w) (mr_file_path img)
      (if rename_files
       then ?target @ [gen_filename x (path_suffix (name_of (mr_file_path img)))]
       else ?target) =
      Inl (ShutilError ''Destination path already exists'' (?target @ [name_of (mr_file_path img)]))"
    for x
    by simp
  have step: "move_image img root_dir rename_files x w = (Not_moved, w1)" for x
    using move_image_not_moved [OF made mv flag, of x] by (cases b) (simp_all add: logged)
  have fs_same: "filesys w1 = filesys w"
    by (simp add: logged write_log_def print_line_def)
  have "log_entries w1 = log_entries w @ [Text ''File already exists as this path. Not moving.'']"
    by (simp add: logged write_log_def print_line_def log_entries_def)
  with step fs_same src show ?thesis by simp
qed

theorem collision_is_not_fatal_witness:
  "is_file (filesys example_world) [''pics'', ''a.jpg''] \<and>
   is_dir (filesys example_world) [''pics'', ''1984''] \<and>
   is_file (filesys example_world) [''pics'', ''1984'', ''a.jpg''] \<and>
   move_loop 0
     [\<lparr>mr_file_path = [''pics'', ''a.jpg''], mr_toi = Some ''1984'', mr_errors = ''''\<rparr>,
      \<lparr>mr_file_path = [''pics'', ''b.png''], mr_toi = None, mr_errors = ''''\<rparr>]
     [''pics''] False (\<lambda>i. ''u'') example_world [] [] =
   move_loop 1
     [\<lparr>mr_file_path = [''pics'', ''b.png''], mr_toi = None, mr_errors = ''''\<rparr>]
     [''pics''] False (\<lambda>i. ''u'')
     (example_world\<lparr>logfile := Some [Text ''File already exists as this path. Not moving.'']\<rparr>)
     [] [] \<and>
   fst (move_loop 0
     [\<lparr>mr_file_path = [''pics'', ''a.jpg''], mr_toi = Some ''1984'', mr_errors = ''''\<rparr>,
      \<lparr>mr_file_path = [''pics'', ''b.png''], mr_toi = None, mr_errors = ''''\<rparr>]
     [''pics''] False (\<lambda>i. ''u'') example_world [] []) =
     [\<lparr>ms_new_filepath = [''pics'', ''unorganised'', ''b.png''],
       ms_old_filepath = [''pics'', ''b.png'']\<rparr>]"
proof -
  let ?img = "\<lparr>mr_file_path = [''pics'', ''a.jpg''], mr_toi = Some ''1984'', mr_errors = ''''\<rparr>"
  let ?rest = "[\<lparr>mr_file_path = [''pics'', ''b.png''], mr_toi = None, mr_errors = ''''\<rparr>]"
  let ?w1 = "example_world\<lparr>logfile := Some [Text ''File already exists as this path. Not moving.'']\<rparr>"
  have keep_name: "\<not> False" by simp
  have src: "is_file (filesys example_world) (mr_file_path ?img)" by code_simp
  have folder: "is_dir (filesys example_world) (target_dir_of [''pics''] (mr_toi ?img))"
    by code_simp
  have taken: "is_file (filesys example_world)
      (target_dir_of [''pics''] (mr_toi ?img) @ [name_of (mr_file_path ?img)])"
    by code_simp
  have flag: "verbose_output example_world = Some False" by code_simp
  have logged: "?w1 = write_log (Text ''File already exists as this path. Not moving.'')
      (if False then print_line (Text ''File already exists as this path. Not moving.'') example_world
       else example_world)"
    by code_simp
  have t: "target_dir_of [''pics''] (mr_toi ?img) = [''pics'', ''1984'']" by code_simp
  have rest_run: "fst (move_loop 1 ?rest [''pics''] False (\<lambda>i. ''u'') ?w1 [] []) =
      [\<lparr>ms_new_filepath = [''pics'', ''unorganised'', ''b.png''],
        ms_old_filepath = [''pics'', ''b.png'']\<rparr>]"
    by code_simp
  note c = collision_is_not_fatal
    [where uuids = "\<lambda>i. ''u''" and idx = 0 and rest = ?rest and successful = "[]"
       and errors = "[]" and root_dir = "[''pics'']",
     OF keep_name src folder taken flag logged]
  from c have step: "move_loop 0 (?img # ?rest) [''pics''] False (\<lambda>i. ''u'') example_world [] [] =
      move_loop 1 ?rest [''pics''] False (\<lambda>i. ''u'') ?w1 [] []"
    by simp
  have taken': "is_file (filesys example_world) [''pics'', ''1984'', ''a.jpg'']"
    by code_simp
  from src folder taken' show ?thesis
    unfolding step rest_run using t by simp
qed

text \<open>
  C2 fails on the code: the token of a file without tags is the result left over from the
  file before it. The same file \<^verbatim>\<open>d.png\<close>, with the same empty tag list, gets the token
  \<^verbatim>\<open>1984\<close> after a dated file and no token after an undated one.
\<close>

theorem untagged_file_inherits_previous_match:
  "find_target_tags
     [\<lparr>tr_file_path = [''pics'', ''a.jpg''], tr_tags = [''Location DATE: 1984 Paris''],
       tr_errors = ''''\<rparr>,
      \<lparr>tr_file_path = [''pics'', ''d.png''], tr_tags = [], tr_errors = ''''\<rparr>] ''YEAR'' =
     Inr [\<lparr>mr_file_path = [''pics'', ''a.jpg''], mr_toi = Some ''1984'', mr_errors = ''''\<rparr>,
          \<lparr>mr_file_path = [''pics'', ''d.png''], mr_toi = Some ''1984'', mr_errors = ''''\<rparr>] \<and>
   find_target_tags
     [\<lparr>tr_file_path = [''pics'', ''b.png''], tr_tags = [''holiday''], tr_errors = ''''\<rparr>,
      \<lparr>tr_file_path = [''pics'', ''d.png''], tr_tags = [], tr_errors = ''''\<rparr>] ''YEAR'' =
     Inr [\<lparr>mr_file_path = [''pics'', ''b.png''], mr_toi = None, mr_errors = ''''\<rparr>,
          \<lparr>mr_file_path = [''pics'', ''d.png''], mr_toi = None, mr_errors = ''''\<rparr>]"
  by code_simp

text \<open>
  C3 fails on the code for a file with an empty tag list: read after \<^verbatim>\<open>a.jpg\<close>, the file
  \<^verbatim>\<open>d.png\<close> (for which the tool prints no line) gets the token \<^verbatim>\<open>1984\<close> and is moved to
  \<^verbatim>\<open>/pics/1984/d.png\<close>, not to \<^verbatim>\<open>/pics/unorganised/d.png\<close>; read first, it stops the
  matcher with an unbound local variable.
\<close>

theorem untagged_file_goes_to_year_folder_or_stops_the_run:
  "fst (get_iptc_keywords example_tool [[''pics'', ''a.jpg''], [''pics'', ''d.png'']] example_world) =
     [\<lparr>tr_file_path = [''pics'', ''a.jpg''], tr_tags = [''Location DATE: 1984 Paris''],
       tr_errors = ''''\<rparr>,
      \<lparr>tr_file_path = [''pics'', ''d.png''], tr_tags = [], tr_errors = ''no IPTC data''\<rparr>] \<and>
   find_target_tags
     [\<lparr>tr_file_path = [''pics'', ''a.jpg''], tr_tags = [''Location DATE: 1984 Paris''],
       tr_errors = ''''\<rparr>,
      \<lparr>tr_file_path = [''pics'', ''d.png''], tr_tags = [], tr_errors = ''no IPTC data''\<rparr>] ''YEAR'' =
     Inr [\<lparr>mr_file_path = [''pics'', ''a.jpg''], mr_toi = Some ''1984'', mr_errors = ''''\<rparr>,
          \<lparr>mr_file_path = [''pics'', ''d.png''], mr_toi = Some ''1984'', mr_errors = ''''\<rparr>] \<and>
   fst (move_images
     [\<lparr>mr_file_path = [''pics'', ''a.jpg''], mr_toi = Some ''1984'', mr_errors = ''''\<rparr>,
      \<lparr>mr_file_path = [''pics'', ''d.png''], mr_toi = Some ''1984'', mr_errors = ''''\<rparr>]
     [''pics''] False (\<lambda>i. ''u'') example_world) =
     [\<lparr>ms_new_filepath = [''pics'', ''1984'', ''d.png''], ms_old_filepath = [''pics'', ''d.png'']\<rparr>] \<and>
   find_target_tags
     [\<lparr>tr_file_path = [''pics'', ''d.png''], tr_tags = [], tr_errors = ''no IPTC data''\<rparr>,
      \<lparr>tr_file_path = [''pics'', ''a.jpg''], tr_tags = [''Location DATE: 1984 Paris''],
       tr_errors = ''''\<rparr>] ''YEAR'' =
     Inl (UnboundLocalError ''match'')"
  by code_simp

text \<open>
  C9. For every non-empty \<^verbatim>\<open>root_dir\<close> whose first character is a dot, \<^verbatim>\<open>execute\<close> prints
  \<^verbatim>\<open>Invalid root path. Aborting attempt.\<close> and ends: the result is the given world with
  that one line more on the console, whatever the filesystem holds, so also when the path
  names an existing directory. An empty \<^verbatim>\<open>root_dir\<close> is not tested: validation never
  raises this error for it, and passes with the default options.
\<close>

theorem dot_root_aborts_before_filesystem:
  "(root_dir \<noteq> [] \<and> hd root_dir = CHR ''.'' \<longrightarrow>
      execute run uuids root_dir verbose rename_files meta_type tag_type tag_info_search w =
        (w\<lparr>console := console w @ [Text ''Invalid root path. Aborting attempt.'']\<rparr>, None)) \<and>
   validate_args [] verbose rename_files meta_type tag_type tag_info_search \<noteq>
     Inl (ValueError ''Invalid root path. Aborting attempt.'') \<and>
   validate_args [] verbose rename_files ''IPTC'' ''KEYWORDS'' ''YEAR'' =
     Inr (''IPTC'', ''KEYWORDS'', ''YEAR'')"
proof -
  have a: "execute run uuids root_dir verbose rename_files meta_type tag_type tag_info_search w =
      (w\<lparr>console := console w @ [Text ''Invalid root path. Aborting attempt.'']\<rparr>, None)"
    if "root_dir \<noteq> []" "hd root_dir = CHR ''.''"
    using that by (simp add: execute_def validate_args_def handle_exn_def print_line_def)
  have b: "validate_args [] verbose rename_files meta_type tag_type tag_info_search \<noteq>
      Inl (ValueError ''Invalid root path. Aborting attempt.'')"
    by (simp add: validate_args_def)
  have c: "validate_args [] verbose rename_files ''IPTC'' ''KEYWORDS'' ''YEAR'' =
      Inr (''IPTC'', ''KEYWORDS'', ''YEAR'')"
    by code_simp
  from a b c show ?thesis by blast
qed

theorem dot_root_aborts_before_filesystem_witness:
  "''./1984'' \<noteq> [] \<and> hd ''./1984'' = CHR ''.'' \<and>
   resolve_strict (filesys example_world) (cwd example_world) ''./1984'' = Inr [''pics'', ''1984''] \<and>
   is_dir (filesys example_world) [''pics'', ''1984''] \<and>
   execute example_tool (\<lambda>i. ''u'') ''./1984'' True False ''IPTC'' ''KEYWORDS'' ''YEAR'' example_world =
     (example_world\<lparr>console := console example_world @
        [Text ''Invalid root path. Aborting attempt.'']\<rparr>, None)"
proof -
  have h: "''./1984'' \<noteq> [] \<and> hd ''./1984'' = CHR ''.''" by simp
  have r: "resolve_strict (filesys example_world) (cwd example_world) ''./1984'' = Inr [''pics'', ''1984'']"
    by code_simp
  have d: "is_dir (filesys example_world) [''pics'', ''1984'']" by code_simp
  from dot_root_aborts_before_filesystem
    [of "''./1984''" example_tool "\<lambda>i. ''u''" True False "''IPTC''" "''KEYWORDS''" "''YEAR''" example_world]
    h r d show ?thesis by blast
qed

text \<open>
  C4 as stated fails: \<^verbatim>\<open>./missing\<close> does not exist, and the run ends with the message of
  the argument check, not with the "not found" message.
\<close>

theorem dot_root_reports_invalid_path_not_missing:
  "resolve_strict (filesys example_world) (cwd example_world) ''./missing'' =
     Inl (FileNotFoundError [''pics'', ''missing'']) \<and>
   console (fst (execute example_tool (\<lambda>i. ''u'') ''./missing'' False False
                   ''IPTC'' ''KEYWORDS'' ''YEAR'' example_world)) =
     [Text ''Invalid root path. Aborting attempt.'']"
  by code_simp

text \<open>
  C4, as amended. If the arguments pass validation and resolving the root directory raises
  \<^verbatim>\<open>FileNotFoundError\<close>, the run ends with the line
  \<^verbatim>\<open>Root directory was not found. Aborting attempt.\<close>; the filesystem and the log file are
  as they were.
\<close>

theorem missing_root_aborts_untouched:
  assumes "validate_args root_dir verbose rename_files meta_type tag_type tag_info_search = Inr cleaned"
    and "resolve_strict (filesys w) (cwd w) root_dir = Inl (FileNotFoundError p)"
  shows "execute run uuids root_dir verbose rename_files meta_type tag_type tag_info_search w =
           (w\<lparr>verbose_output := Some verbose,
              console := console w @ [Text ''Root directory was not found. Aborting attempt.'']\<rparr>,
            None) \<and>
         filesys (fst (execute run uuids root_dir verbose rename_files meta_type tag_type
                         tag_info_search w)) = filesys w \<and>
         logfile (fst (execute run uuids root_dir verbose rename_files meta_type tag_type
                         tag_info_search w)) = logfile w"
proof -
  obtain a b c where "cleaned = (a, b, c)" by (cases cleaned) auto
  with assms have "execute run uuids root_dir verbose rename_files meta_type tag_type tag_info_search w =
      (w\<lparr>verbose_output := Some verbose,
         console := console w @ [Text ''Root directory was not found. Aborting attempt.'']\<rparr>,
       None)"
    by (simp add: execute_def handle_exn_def print_line_def)
  then show ?thesis by simp
qed

theorem missing_root_aborts_untouched_witness:
  "validate_args ''/missing'' True False ''IPTC'' ''KEYWORDS'' ''YEAR'' =
     Inr (''IPTC'', ''KEYWORDS'', ''YEAR'') \<and>
   resolve_strict (filesys example_world) (cwd example_world) ''/missing'' =
     Inl (FileNotFoundError [''missing'']) \<and>
   execute example_tool (\<lambda>i. ''u'') ''/missing'' True False ''IPTC'' ''KEYWORDS'' ''YEAR'' example_world =
     (example_world\<lparr>verbose_output := Some True,
        console := console example_world @
          [Text ''Root directory was not found. Aborting attempt.'']\<rparr>, None)"
proof -
  have h1: "validate_args ''/missing'' True False ''IPTC'' ''KEYWORDS'' ''YEAR'' =
      Inr (''IPTC'', ''KEYWORDS'', ''YEAR'')"
    by code_simp
  have h2: "resolve_strict (filesys example_world) (cwd example_world) ''/missing'' =
      Inl (FileNotFoundError [''missing''])"
    by code_simp
  from missing_root_aborts_untouched [OF h1 h2, of example_tool "\<lambda>i. ''u''"] h1 h2
  show ?thesis by blast
qed

section \<open>The claims about discovery and the metadata reader\<close>

lemma classify_filter:
  "classify ps valid_paths excluded_paths =
     (valid_paths @
        filter (\<lambda>p. strip_dots (upper (path_suffix (name_of p))) \<in> set AVAILABLE_FILE_TYPES) ps,
      excluded_paths @
        filter (\<lambda>p. strip_dots (upper (path_suffix (name_of p))) \<notin> set AVAILABLE_FILE_TYPES) ps)"
  by (induction ps arbitrary: valid_paths excluded_paths) simp_all

lemma rfind_last: "c \<notin> set ext \<Longrightarrow> rfind c (stem @ c # ext) = Some (length stem)"
proof -
  assume a: "c \<notin> set ext"
  then have "takeWhile (\<lambda>x. x \<noteq> c) (rev ext @ c # rev stem) = rev ext"
    by (subst takeWhile_append2) auto
  then show ?thesis by (simp add: rfind_def)
qed

lemma rfind_Some:
  assumes "rfind c s = Some i"
  shows "\<exists>stem ext. s = stem @ c # ext \<and> c \<notin> set ext \<and> i = length stem"
proof -
  from assms have "c \<in> set s" by (auto simp: rfind_def split: if_splits)
  then obtain stem ext where s: "s = stem @ c # ext" and n: "c \<notin> set ext"
    by (auto dest: split_list_last)
  with assms rfind_last [OF n, of stem] show ?thesis by auto
qed

lemma upper_char_dot: "upper_char c = CHR ''.'' \<longleftrightarrow> c = CHR ''.''"
proof (cases "map_of (zip ''abcdefghijklmnopqrstuvwxyz'' ''ABCDEFGHIJKLMNOPQRSTUVWXYZ'') c")
  case None
  then show ?thesis by (simp add: upper_char_def)
next
  case (Some u)
  then have "(c, u) \<in> set (zip ''abcdefghijklmnopqrstuvwxyz'' ''ABCDEFGHIJKLMNOPQRSTUVWXYZ'')"
    by (rule map_of_SomeD)
  then have "u \<noteq> CHR ''.'' \<and> c \<noteq> CHR ''.''" by auto
  with Some show ?thesis by (simp add: upper_char_def)
qed

lemma upper_no_dot: "CHR ''.'' \<in> set (upper s) \<longleftrightarrow> CHR ''.'' \<in> set s"
proof -
  have "(CHR ''.'' = upper_char x) = (x = CHR ''.'')" for x
    using upper_char_dot [of x] by auto
  then show ?thesis by (induction s) (auto simp: upper_def)
qed

lemma dropWhile_none: "\<forall>x\<in>set xs. \<not> P x \<Longrightarrow> dropWhile P xs = xs"
  by (cases xs) auto

lemma strip_dots_no_dots: "CHR ''.'' \<notin> set s \<Longrightarrow> strip_dots s = s"
proof -
  assume a: "CHR ''.'' \<notin> set s"
  then have "dropWhile (\<lambda>x. x = CHR ''.'') s = s"
    by (intro dropWhile_none) auto
  moreover from a have "dropWhile (\<lambda>x. x = CHR ''.'') (rev s) = rev s"
    by (intro dropWhile_none) auto
  ultimately show ?thesis by (simp add: strip_dots_def)
qed

lemma strip_dots_leading: "strip_dots (CHR ''.'' # s) = strip_dots s"
  by (simp add: strip_dots_def)

lemma suffix_of_split:
  assumes "CHR ''.'' \<notin> set ext"
  shows "path_suffix (stem @ CHR ''.'' # ext) =
           (if stem \<noteq> [] \<and> ext \<noteq> [] then CHR ''.'' # ext else [])"
  using rfind_last [OF assms, of stem] by (auto simp: path_suffix_def)

lemma allowed_extension_iff:
  "strip_dots (upper (path_suffix name)) \<in> set AVAILABLE_FILE_TYPES \<longleftrightarrow>
   has_allowed_extension name"
proof
  assume l: "strip_dots (upper (path_suffix name)) \<in> set AVAILABLE_FILE_TYPES"
  then have ne: "path_suffix name \<noteq> []"
    by (auto simp: AVAILABLE_FILE_TYPES_def upper_def strip_dots_def)
  then obtain i where i: "rfind (CHR ''.'') name = Some i"
    by (auto simp: path_suffix_def split: option.splits)
  from rfind_Some [OF i] obtain stem ext where
    name: "name = stem @ CHR ''.'' # ext" and nd: "CHR ''.'' \<notin> set ext"
    by blast
  from ne name suffix_of_split [OF nd, of stem]
  have st: "stem \<noteq> []" and sfx: "path_suffix name = CHR ''.'' # ext"
    by (auto split: if_splits)
  have "upper (path_suffix name) = CHR ''.'' # upper ext"
    by (simp add: sfx upper_def upper_char_dot)
  then have "strip_dots (upper (path_suffix name)) = upper ext"
    using nd by (simp add: strip_dots_leading strip_dots_no_dots upper_no_dot)
  with l name nd st show "has_allowed_extension name"
    by (auto simp: has_allowed_extension_def)
next
  assume "has_allowed_extension name"
  then obtain stem ext where
    name: "name = stem @ CHR ''.'' # ext" and st: "stem \<noteq> []" and
    nd: "CHR ''.'' \<notin> set ext" and al: "upper ext \<in> set AVAILABLE_FILE_TYPES"
    by (auto simp: has_allowed_extension_def)
  from al have "ext \<noteq> []" by (auto simp: AVAILABLE_FILE_TYPES_def upper_def)
  with name st suffix_of_split [OF nd, of stem]
  have sfx: "path_suffix name = CHR ''.'' # ext" by simp
  have "upper (path_suffix name) = CHR ''.'' # upper ext"
    by (simp add: sfx upper_def upper_char_dot)
  then have "strip_dots (upper (path_suffix name)) = upper ext"
    using nd by (simp add: strip_dots_leading strip_dots_no_dots upper_no_dot)
  with al show "strip_dots (upper (path_suffix name)) \<in> set AVAILABLE_FILE_TYPES"
    by simp
qed

lemma found_paths_iff:
  "p \<in> set (filter (is_file fs) (rglob fs root_dir)) \<longleftrightarrow>
   is_dir fs root_dir \<and> strict_prefix root_dir p \<and> is_file fs p"
proof -
  have "p \<in> fst ` set fs" if "is_file fs p" "strict_prefix root_dir p"
  proof -
    from that(2) have "p \<noteq> []" by auto
    with that(1) obtain c where "map_of fs p = Some (File c)"
      by (auto simp: is_file_def lookup_def split: option.splits node.splits)
    then have "(p, File c) \<in> set fs" by (rule map_of_SomeD)
    then show ?thesis by force
  qed
  then show ?thesis by (auto simp: rglob_def)
qed

text \<open>
  C7. For every root directory, the two lists of \<^verbatim>\<open>_get_files\<close> together hold every regular
  file strictly below the root (at any depth) and nothing else, each exactly once: no path
  is twice in a list or in both. A file is in the first list exactly when its name is a
  non-empty stem, a dot and an extension without dots (what \<^verbatim>\<open>Path.suffix\<close> takes as the
  extension) that reads JPG, JPEG, TIF, TIFF or PNG in capitals.
\<close>

theorem discovery_partitions_regular_files:
  assumes "get_files fs root_dir = (valid_paths, excluded_paths)"
  shows "distinct (valid_paths @ excluded_paths) \<and>
         set valid_paths \<union> set excluded_paths =
           {p. is_dir fs root_dir \<and> strict_prefix root_dir p \<and> is_file fs p} \<and>
         set valid_paths =
           {p. is_dir fs root_dir \<and> strict_prefix root_dir p \<and> is_file fs p \<and>
               has_allowed_extension (name_of p)} \<and>
         set excluded_paths =
           {p. is_dir fs root_dir \<and> strict_prefix root_dir p \<and> is_file fs p \<and>
               \<not> has_allowed_extension (name_of p)}"
proof -
  let ?found = "filter (is_file fs) (rglob fs root_dir)"
  let ?ok = "\<lambda>p. strip_dots (upper (path_suffix (name_of p))) \<in> set AVAILABLE_FILE_TYPES"
  from assms have v: "valid_paths = filter ?ok ?found"
    and e: "excluded_paths = filter (\<lambda>p. \<not> ?ok p) ?found"
    by (simp_all add: get_files_def classify_filter Let_def)
  have "distinct (rglob fs root_dir)" by (simp add: rglob_def)
  then have "distinct (valid_paths @ excluded_paths)"
    by (auto simp: v e)
  moreover have "set valid_paths \<union> set excluded_paths =
      {p. is_dir fs root_dir \<and> strict_prefix root_dir p \<and> is_file fs p}"
    using found_paths_iff [of _ fs root_dir] by (auto simp: v e)
  moreover have "set valid_paths =
      {p. is_dir fs root_dir \<and> strict_prefix root_dir p \<and> is_file fs p \<and>
          has_allowed_extension (name_of p)}"
    using found_paths_iff [of _ fs root_dir] by (auto simp: v allowed_extension_iff)
  moreover have "set excluded_paths =
      {p. is_dir fs root_dir \<and> strict_prefix root_dir p \<and> is_file fs p \<and>
          \<not> has_allowed_extension (name_of p)}"
    using found_paths_iff [of _ fs root_dir] by (auto simp: e allowed_extension_iff)
  ultimately show ?thesis by blast
qed

theorem discovery_partitions_regular_files_witness:
  "get_files
     [([''pics''], Dir), ([''pics'', ''a.JPeG''], File ''A''), ([''pics'', ''.jpg''], File ''H''),
      ([''pics'', ''sub''], Dir), ([''pics'', ''sub'', ''b.tiff''], File ''B''),
      ([''pics'', ''sub'', ''c.txt''], File ''C''), ([''other''], Dir),
      ([''other'', ''x.png''], File ''X'')]
     [''pics''] =
     ([[''pics'', ''a.JPeG''], [''pics'', ''sub'', ''b.tiff'']],
      [[''pics'', ''.jpg''], [''pics'', ''sub'', ''c.txt'']]) \<and>
   distinct ([[''pics'', ''a.JPeG''], [''pics'', ''sub'', ''b.tiff'']] @
             [[''pics'', ''.jpg''], [''pics'', ''sub'', ''c.txt'']]) \<and>
   has_allowed_extension (name_of [''pics'', ''a.JPeG'']) \<and>
   \<not> has_allowed_extension (name_of [''pics'', ''.jpg''])"
proof -
  let ?fs = "[([''pics''], Dir), ([''pics'', ''a.JPeG''], File ''A''), ([''pics'', ''.jpg''], File ''H''),
      ([''pics'', ''sub''], Dir), ([''pics'', ''sub'', ''b.tiff''], File ''B''),
      ([''pics'', ''sub'', ''c.txt''], File ''C''), ([''other''], Dir),
      ([''other'', ''x.png''], File ''X'')]"
  have h: "get_files ?fs [''pics''] =
     ([[''pics'', ''a.JPeG''], [''pics'', ''sub'', ''b.tiff'']],
      [[''pics'', ''.jpg''], [''pics'', ''sub'', ''c.txt'']])"
    by code_simp
  note t = discovery_partitions_regular_files [OF h]
  from t have sv: "set [[''pics'', ''a.JPeG''], [''pics'', ''sub'', ''b.tiff'']] =
      {p. is_dir ?fs [''pics''] \<and> strict_prefix [''pics''] p \<and> is_file ?fs p \<and>
          has_allowed_extension (name_of p)}"
    by blast
  have "[''pics'', ''a.JPeG''] \<in> set [[''pics'', ''a.JPeG''], [''pics'', ''sub'', ''b.tiff'']]"
    by simp
  then have "[''pics'', ''a.JPeG''] \<in> {p. is_dir ?fs [''pics''] \<and> strict_prefix [''pics''] p \<and>
      is_file ?fs p \<and> has_allowed_extension (name_of p)}"
    unfolding sv .
  then have a: "has_allowed_extension (name_of [''pics'', ''a.JPeG''])" by blast
  from t have se: "set [[''pics'', ''.jpg''], [''pics'', ''sub'', ''c.txt'']] =
      {p. is_dir ?fs [''pics''] \<and> strict_prefix [''pics''] p \<and> is_file ?fs p \<and>
          \<not> has_allowed_extension (name_of p)}"
    by blast
  have "[''pics'', ''.jpg''] \<in> set [[''pics'', ''.jpg''], [''pics'', ''sub'', ''c.txt'']]"
    by simp
  then have "[''pics'', ''.jpg''] \<in> {p. is_dir ?fs [''pics''] \<and> strict_prefix [''pics''] p \<and>
      is_file ?fs p \<and> \<not> has_allowed_extension (name_of p)}"
    unfolding se .
  then have b: "\<not> has_allowed_extension (name_of [''pics'', ''.jpg''])" by blast
  from t have "distinct ([[''pics'', ''a.JPeG''], [''pics'', ''sub'', ''b.tiff'']] @
             [[''pics'', ''.jpg''], [''pics'', ''sub'', ''c.txt'']])"
    by blast
  with h a b show ?thesis by blast
qed

lemma linebreak_is_space: "is_linebreak c \<Longrightarrow> is_space c"
  by (auto simp: is_linebreak_def is_space_def)

lemma splitlines_from_text:
  "list_all (\<lambda>c. \<not> is_linebreak c) l \<Longrightarrow>
   splitlines_from cur (l @ rest) = splitlines_from (cur @ l) rest"
proof (induction l arbitrary: cur)
  case Nil
  then show ?case by simp
next
  case (Cons c l)
  then have "\<not> is_linebreak c" by simp
  moreover from this have "c \<noteq> CHR 0x0D" by (auto simp: is_linebreak_def)
  ultimately show ?case using Cons by simp
qed

lemma splitlines_from_end:
  assumes "line_end t"
  shows "splitlines_from cur (t @ rest) = cur # splitlines_from [] rest"
proof -
  have pair: "splitlines_from cur (CHR 0x0D # CHR 0x0A # rest) = cur # splitlines_from [] rest"
    by simp
  have one: "splitlines_from cur (c # rest) = cur # splitlines_from [] rest"
    if "is_linebreak c" "c \<noteq> CHR 0x0D" for c
    using that by simp
  from assms consider "t = [CHR 0x0D, CHR 0x0A]"
    | c where "t = [c]"
        "c \<in> set [CHR 0x0A, CHR 0x0B, CHR 0x0C, CHR 0x1C, CHR 0x1D, CHR 0x1E, CHR 0x85]"
    unfolding line_end_def by fastforce
  then show ?thesis
  proof cases
    case 1
    then show ?thesis using pair by simp
  next
    case 2
    then have "is_linebreak c" "c \<noteq> CHR 0x0D"
      by (auto simp: is_linebreak_def)
    from one [OF this] 2 show ?thesis by simp
  qed
qed

lemma splitlines_from_last:
  "list_all (\<lambda>c. \<not> is_linebreak c) l \<Longrightarrow>
   splitlines_from cur l = (if cur @ l = [] then [] else [cur @ l])"
  using splitlines_from_text [of l cur "[]"] by simp

lemma no_space_no_linebreak: "no_space s \<Longrightarrow> list_all (\<lambda>c. \<not> is_linebreak c) s"
  by (auto simp: no_space_def list_all_iff dest: linebreak_is_space)

lemma blank_no_linebreak: "blank s \<Longrightarrow> list_all (\<lambda>c. \<not> is_linebreak c) s"
  by (auto simp: blank_def list_all_iff)

lemma pairs_no_linebreak:
  "list_all (\<lambda>(field, sep). field \<noteq> [] \<and> no_space field \<and> sep \<noteq> [] \<and> blank sep) ps \<Longrightarrow>
   list_all (\<lambda>c. \<not> is_linebreak c) (concat (map (\<lambda>(field, sep). field @ sep) ps))"
  by (induction ps) (auto simp: no_space_no_linebreak blank_no_linebreak)

lemma well_spaced_no_linebreak:
  assumes "well_spaced ln"
  shows "list_all (\<lambda>c. \<not> is_linebreak c) (line_text ln)"
proof -
  obtain lead ps last_field where ln: "ln = (lead, ps, last_field)" by (cases ln) auto
  with assms show ?thesis
    by (simp add: well_spaced_def line_text_def no_space_no_linebreak blank_no_linebreak
        pairs_no_linebreak)
qed

lemma splitlines_output:
  assumes "list_all (\<lambda>(ln, t). well_spaced ln \<and> line_end t) doc" and "well_spaced final"
  shows "splitlines (output_text doc final) =
           map (\<lambda>(ln, t). line_text ln) doc @
           (if line_text final = [] then [] else [line_text final])"
  using assms(1)
proof (induction doc)
  case Nil
  from splitlines_from_last [OF well_spaced_no_linebreak [OF assms(2)], of "[]"]
  show ?case by (simp add: splitlines_def output_text_def)
next
  case (Cons p doc)
  obtain ln t where p: "p = (ln, t)" by (cases p) auto
  with Cons.prems have ws: "well_spaced ln" and le: "line_end t"
    and rest: "list_all (\<lambda>(ln, t). well_spaced ln \<and> line_end t) doc"
    by simp_all
  have "splitlines_from [] (line_text ln @ t @ output_text doc final) =
      splitlines_from (line_text ln) (t @ output_text doc final)"
    using splitlines_from_text [OF well_spaced_no_linebreak [OF ws], of "[]"] by simp
  also have "\<dots> = line_text ln # splitlines_from [] (output_text doc final)"
    by (rule splitlines_from_end [OF le])
  finally show ?case
    using Cons.IH [OF rest] by (simp add: p splitlines_def output_text_def)
qed

lemma split_from_field:
  "no_space field \<Longrightarrow> split_from cur (field @ rest) = split_from (cur @ field) rest"
  by (induction field arbitrary: cur) (simp_all add: no_space_def)

lemma split_from_blank_start:
  "list_all is_space sep \<Longrightarrow> split_from [] (sep @ rest) = split_from [] rest"
  by (induction sep) simp_all

lemma split_from_blank:
  "list_all is_space sep \<Longrightarrow> sep \<noteq> [] \<Longrightarrow> cur \<noteq> [] \<Longrightarrow>
   split_from cur (sep @ rest) = cur # split_from [] rest"
  by (cases sep) (simp_all add: split_from_blank_start)

lemma blank_is_space: "blank s \<Longrightarrow> list_all is_space s"
  by (auto simp: blank_def list_all_iff)

lemma split_from_last_field:
  "no_space s \<Longrightarrow> split_from [] s = (if s = [] then [] else [s])"
  using split_from_field [of s "[]" "[]"] by simp

lemma split_from_pairs:
  assumes "list_all (\<lambda>(field, sep). field \<noteq> [] \<and> no_space field \<and> sep \<noteq> [] \<and> blank sep) ps"
  shows "split_from [] (concat (map (\<lambda>(field, sep). field @ sep) ps) @ rest) =
           map fst ps @ split_from [] rest"
  using assms
proof (induction ps)
  case Nil
  then show ?case by simp
next
  case (Cons p ps)
  obtain field sep where p: "p = (field, sep)" by (cases p) auto
  with Cons.prems have f: "field \<noteq> []" "no_space field" and s: "sep \<noteq> []" "blank sep"
    and rest: "list_all (\<lambda>(field, sep). field \<noteq> [] \<and> no_space field \<and> sep \<noteq> [] \<and> blank sep) ps"
    by simp_all
  let ?tail = "concat (map (\<lambda>(field, sep). field @ sep) ps) @ rest"
  have "split_from [] (field @ sep @ ?tail) = split_from field (sep @ ?tail)"
    using split_from_field [OF f(2), of "[]"] by simp
  also have "\<dots> = field # split_from [] ?tail"
    by (rule split_from_blank [OF blank_is_space [OF s(2)] s(1) f(1)])
  finally show ?case using Cons.IH [OF rest] by (simp add: p)
qed

lemma split_ws_line:
  assumes "well_spaced ln"
  shows "split_ws (line_text ln) = line_fields ln"
proof -
  obtain lead ps last_field where ln: "ln = (lead, ps, last_field)" by (cases ln) auto
  with assms have l: "blank lead"
    and p: "list_all (\<lambda>(field, sep). field \<noteq> [] \<and> no_space field \<and> sep \<noteq> [] \<and> blank sep) ps"
    and f: "no_space last_field"
    by (simp_all add: well_spaced_def)
  have "split_from [] (lead @ concat (map (\<lambda>(field, sep). field @ sep) ps) @ last_field) =
      split_from [] (concat (map (\<lambda>(field, sep). field @ sep) ps) @ last_field)"
    by (rule split_from_blank_start [OF blank_is_space [OF l]])
  also have "\<dots> = map fst ps @ split_from [] last_field"
    by (rule split_from_pairs [OF p])
  finally show ?thesis
    by (simp add: ln split_ws_def line_text_def line_fields_def split_from_last_field [OF f])
qed

lemma join_concat:
  "join sep xs = (case xs of [] \<Rightarrow> [] | x # rest \<Rightarrow> x @ concat (map (\<lambda>y. sep @ y) rest))"
  by (induction sep xs rule: join.induct) simp_all



lemma join_fourth_onward: "join '' '' (drop 3 ws) = fourth_onward ws"
proof (cases "drop 3 ws")
  case Nil
  then show ?thesis unfolding fourth_onward_def Nil by simp
next
  case (Cons x xs)
  have e: "map (\<lambda>y. '' '' @ y) xs = map (\<lambda>field. CHR '' '' # field) xs"
    by (rule map_cong) simp_all
  have "join '' '' (x # xs) = x @ concat (map (\<lambda>y. '' '' @ y) xs)"
    by (subst join_concat) simp
  then show ?thesis unfolding fourth_onward_def Cons using e by simp
qed

text \<open>
  Every output without a carriage return is such a sequence of lines, so the reading of the
  output that the next theorem starts from exists for whatever the tool prints.
\<close>

lemma every_line_well_spaced:
  "list_all (\<lambda>c. \<not> is_linebreak c) l \<Longrightarrow> \<exists>ln. well_spaced ln \<and> line_text ln = l"
proof (induction l)
  case Nil
  have "well_spaced ([], [], []) \<and> line_text ([], [], []) = []"
    by (simp add: well_spaced_def line_text_def blank_def no_space_def)
  then show ?case by blast
next
  case (Cons c l)
  then obtain ln where ws: "well_spaced ln" and tx: "line_text ln = l" by auto
  obtain lead ps last_field where ln: "ln = (lead, ps, last_field)" by (cases ln) auto
  from Cons.prems have nl: "\<not> is_linebreak c" by simp
  show ?case
  proof (cases "is_space c")
    case True
    with nl ws tx ln have "well_spaced (c # lead, ps, last_field) \<and>
        line_text (c # lead, ps, last_field) = c # l"
      by (simp add: well_spaced_def line_text_def blank_def)
    then show ?thesis by blast
  next
    case False
    show ?thesis
    proof (cases "lead = []")
      case lead_ne: False
      with False ws tx ln have "well_spaced ([], ([c], lead) # ps, last_field) \<and>
          line_text ([], ([c], lead) # ps, last_field) = c # l"
        by (simp add: well_spaced_def line_text_def blank_def no_space_def)
      then show ?thesis by blast
    next
      case lead_e: True
      show ?thesis
      proof (cases ps)
        case Nil
        with False lead_e ws tx ln have "well_spaced ([], [], c # last_field) \<and>
            line_text ([], [], c # last_field) = c # l"
          by (simp add: well_spaced_def line_text_def blank_def no_space_def)
        then show ?thesis by blast
      next
        case (Cons p ps')
        obtain field sep where p: "p = (field, sep)" by (cases p) auto
        with Cons False lead_e ws tx ln
        have "well_spaced ([], (c # field, sep) # ps', last_field) \<and>
            line_text ([], (c # field, sep) # ps', last_field) = c # l"
          by (simp add: well_spaced_def line_text_def blank_def no_space_def)
        then show ?thesis by blast
      qed
    qed
  qed
qed

lemma single_line_end: "is_linebreak c \<Longrightarrow> c \<noteq> CHR 0x0D \<Longrightarrow> line_end [c]"
  by (auto simp: is_linebreak_def line_end_def)

lemma every_output_is_lines:
  "CHR 0x0D \<notin> set s \<Longrightarrow>
   \<exists>doc final. s = output_text doc final \<and>
     list_all (\<lambda>(ln, t). well_spaced ln \<and> line_end t) doc \<and> well_spaced final"
proof (induction s)
  case Nil
  have "[] = output_text [] ([], [], []) \<and>
      list_all (\<lambda>(ln, t). well_spaced ln \<and> line_end t) [] \<and> well_spaced ([], [], [])"
    by (simp add: output_text_def well_spaced_def line_text_def blank_def no_space_def)
  then show ?case by blast
next
  case (Cons c s)
  then obtain doc final where s: "s = output_text doc final"
    and lines: "list_all (\<lambda>(ln, t). well_spaced ln \<and> line_end t) doc"
    and fin: "well_spaced final"
    by auto
  from Cons.prems have ncr: "c \<noteq> CHR 0x0D" by auto
  show ?case
  proof (cases "is_linebreak c")
    case True
    have e: "well_spaced ([], [], [])" "line_text ([], [], []) = []"
      by (simp_all add: well_spaced_def line_text_def blank_def no_space_def)
    from single_line_end [OF True ncr] e s lines fin
    have "c # s = output_text ((([], [], []), [c]) # doc) final \<and>
        list_all (\<lambda>(ln, t). well_spaced ln \<and> line_end t) ((([], [], []), [c]) # doc) \<and>
        well_spaced final"
      by (simp add: output_text_def)
    then show ?thesis by blast
  next
    case False
    show ?thesis
    proof (cases doc)
      case Nil
      from False well_spaced_no_linebreak [OF fin]
      have "list_all (\<lambda>c. \<not> is_linebreak c) (c # line_text final)" by simp
      from every_line_well_spaced [OF this] obtain ln where
        "well_spaced ln" "line_text ln = c # line_text final" by blast
      with Nil s have "c # s = output_text [] ln \<and>
          list_all (\<lambda>(ln, t). well_spaced ln \<and> line_end t) [] \<and> well_spaced ln"
        by (simp add: output_text_def)
      then show ?thesis by blast
    next
      case (Cons p doc')
      obtain l t where p: "p = (l, t)" by (cases p) auto
      with Cons lines have wl: "well_spaced l" and le: "line_end t"
        and rest: "list_all (\<lambda>(ln, t). well_spaced ln \<and> line_end t) doc'"
        by simp_all
      from False well_spaced_no_linebreak [OF wl]
      have "list_all (\<lambda>c. \<not> is_linebreak c) (c # line_text l)" by simp
      from every_line_well_spaced [OF this] obtain ln where
        ln: "well_spaced ln" "line_text ln = c # line_text l" by blast
      with Cons p s le rest fin have "c # s = output_text ((ln, t) # doc') final \<and>
          list_all (\<lambda>(ln, t). well_spaced ln \<and> line_end t) ((ln, t) # doc') \<and> well_spaced final"
        by (simp add: output_text_def)
      then show ?thesis by blast
    qed
  qed
qed

lemma tags_of_lines:
  "list_all (\<lambda>(ln, t). well_spaced ln \<and> line_end t) doc \<Longrightarrow>
   map (\<lambda>item. join '' '' (drop 3 (split_ws item))) (map (\<lambda>(ln, t). line_text ln) doc) =
   map (\<lambda>(ln, t). fourth_onward (line_fields ln)) doc"
  by (induction doc) (auto simp: split_ws_line join_fourth_onward)

text \<open>
  C8. The reader returns one record per file, in order, each with the tool's standard
  error as it is. For a file whose output is a sequence of lines (each a blank lead and
  fields with blanks between them, ended by a line boundary, the last line possibly without
  one), the tags of its record are, line by line, the fields of the line from the fourth
  on, joined by single spaces. Fewer than four fields give the empty tag.
\<close>

theorem reader_keeps_fourth_field_onward:
  assumes out: "fst (run f) = output_text doc final"
    and lines: "list_all (\<lambda>(ln, t). well_spaced ln \<and> line_end t) doc"
    and last_line: "well_spaced final"
  shows "map tr_file_path (fst (get_iptc_keywords run (before @ f # after) w)) =
           before @ f # after \<and>
         map tr_errors (fst (get_iptc_keywords run (before @ f # after) w)) =
           map (\<lambda>p. snd (run p)) (before @ f # after) \<and>
         fst (get_iptc_keywords run (before @ f # after) w) ! length before =
           \<lparr>tr_file_path = f,
            tr_tags = map (\<lambda>(ln, t). fourth_onward (line_fields ln)) doc @
                      (if line_text final = [] then [] else [fourth_onward (line_fields final)]),
            tr_errors = snd (run f)\<rparr> \<and>
         (\<forall>ws. length ws < 4 \<longrightarrow> fourth_onward ws = [])"
proof -
  let ?tag = "\<lambda>item. join '' '' (drop 3 (split_ws item))"
  let ?rec = "\<lambda>p. \<lparr>tr_file_path = p, tr_tags = map ?tag (splitlines (fst (run p))),
                     tr_errors = snd (run p)\<rparr>"
  have all: "fst (get_iptc_keywords run (before @ f # after) w) = map ?rec (before @ f # after)"
    by (simp add: get_iptc_keywords_def Let_def read_files_map)
  have paths: "map tr_file_path (map ?rec (before @ f # after)) = before @ f # after"
    by (simp add: comp_def)
  have errs: "map tr_errors (map ?rec (before @ f # after)) =
      map (\<lambda>p. snd (run p)) (before @ f # after)"
    by (simp add: comp_def)
  have at: "map ?rec (before @ f # after) ! length before = ?rec f"
    by (simp add: nth_append)
  have "splitlines (fst (run f)) =
      map (\<lambda>(ln, t). line_text ln) doc @ (if line_text final = [] then [] else [line_text final])"
    by (simp only: out splitlines_output [OF lines last_line])
  then have "map ?tag (splitlines (fst (run f))) =
      map ?tag (map (\<lambda>(ln, t). line_text ln) doc) @
      map ?tag (if line_text final = [] then [] else [line_text final])"
    by (simp only: map_append)
  also have "map ?tag (map (\<lambda>(ln, t). line_text ln) doc) =
      map (\<lambda>(ln, t). fourth_onward (line_fields ln)) doc"
    by (rule tags_of_lines [OF lines])
  also have "map ?tag (if line_text final = [] then [] else [line_text final]) =
      (if line_text final = [] then [] else [fourth_onward (line_fields final)])"
    by (simp add: split_ws_line [OF last_line] join_fourth_onward)
  finally have "map ?tag (splitlines (fst (run f))) =
      map (\<lambda>(ln, t). fourth_onward (line_fields ln)) doc @
      (if line_text final = [] then [] else [fourth_onward (line_fields final)])" .
  with at have rec: "map ?rec (before @ f # after) ! length before =
      \<lparr>tr_file_path = f,
       tr_tags = map (\<lambda>(ln, t). fourth_onward (line_fields ln)) doc @
                 (if line_text final = [] then [] else [fourth_onward (line_fields final)]),
       tr_errors = snd (run f)\<rparr>"
    by simp
  have short: "\<forall>ws. length ws < 4 \<longrightarrow> fourth_onward ws = []"
    by (simp add: fourth_onward_def)
  from paths errs rec short show ?thesis
    unfolding all by blast
qed

theorem reader_keeps_fourth_field_onward_witness:
  "fst (listing_tool [''pics'', ''a.jpg'']) = output_text listing_lines listing_last_line \<and>
   list_all (\<lambda>(ln, t). well_spaced ln \<and> line_end t) listing_lines \<and>
   well_spaced listing_last_line \<and>
   map tr_file_path
     (fst (get_iptc_keywords listing_tool [[''pics'', ''d.png''], [''pics'', ''a.jpg'']]
             example_world)) =
     [[''pics'', ''d.png''], [''pics'', ''a.jpg'']] \<and>
   fst (get_iptc_keywords listing_tool [[''pics'', ''d.png''], [''pics'', ''a.jpg'']]
          example_world) ! 1 =
     \<lparr>tr_file_path = [''pics'', ''a.jpg''],
      tr_tags = [''Location DATE: 1984 Paris'', ''holiday'', [], ''last''],
      tr_errors = ''warning''\<rparr>"
proof -
  have out: "fst (listing_tool [''pics'', ''a.jpg'']) = output_text listing_lines listing_last_line"
    by code_simp
  have lines: "list_all (\<lambda>(ln, t). well_spaced ln \<and> line_end t) listing_lines"
    by code_simp
  have last_line: "well_spaced listing_last_line"
    by code_simp
  have tags: "map (\<lambda>(ln, t). fourth_onward (line_fields ln)) listing_lines @
      (if line_text listing_last_line = [] then []
       else [fourth_onward (line_fields listing_last_line)]) =
      [''Location DATE: 1984 Paris'', ''holiday'', [], ''last'']"
    by code_simp
  have err: "snd (listing_tool [''pics'', ''a.jpg'']) = ''warning''"
    by code_simp
  note t = reader_keeps_fourth_field_onward
    [where run = listing_tool and f = "[''pics'', ''a.jpg'']" and before = "[[''pics'', ''d.png'']]"
       and after = "[]" and w = example_world,
     OF out lines last_line]
  from t have "map tr_file_path
      (fst (get_iptc_keywords listing_tool [[''pics'', ''d.png''], [''pics'', ''a.jpg'']]
              example_world)) =
      [[''pics'', ''d.png''], [''pics'', ''a.jpg'']]"
    by simp
  moreover from t have "fst (get_iptc_keywords listing_tool [[''pics'', ''d.png''], [''pics'', ''a.jpg'']]
          example_world) ! 1 =
     \<lparr>tr_file_path = [''pics'', ''a.jpg''],
      tr_tags = [''Location DATE: 1984 Paris'', ''holiday'', [], ''last''],
      tr_errors = ''warning''\<rparr>"
    unfolding tags err by simp
  ultimately show ?thesis using out lines last_line by blast
qed

end
